theory Spec2Isabelle
  imports Complex_Main "HOL-Library.Product_Lexorder" "HOL-Library.Option_ord"
begin

section \<open>Values, errors and results\<close>

text \<open>
  The extractor of \<^verbatim>\<open>yt_dlp/extractor/tiktok.py\<close> works on Python dictionaries.
  A dictionary built by the code is a map from key to value; the values that occur are
  \<^verbatim>\<open>None\<close>, integers, strings and the quotient of a true division (a float, kept
  here as the exact rational). \<open>PFresh\<close> stands for a value drawn from the random
  generator or read from the clock when the dictionary is built.
\<close>

datatype pyval = PNone | PInt int | PStr string | PNum rat | PFresh

type_synonym pydict = "string \<rightharpoonup> pyval"

text \<open>\<^verbatim>\<open>d.get(k)\<close>: the value under the key, \<^verbatim>\<open>None\<close> when the key is missing.\<close>

definition dict_get :: "pydict \<Rightarrow> string \<Rightarrow> pyval" where
  "dict_get d k = (case d k of None \<Rightarrow> PNone | Some v \<Rightarrow> v)"

text \<open>\<^verbatim>\<open>d.setdefault(k, v)\<close>: stores \<open>v\<close> only when the key is missing.\<close>

definition setdefault :: "('k \<rightharpoonup> 'v) \<Rightarrow> 'k \<Rightarrow> 'v \<Rightarrow> ('k \<rightharpoonup> 'v)" where
  "setdefault d k v = (if k \<in> dom d then d else d(k \<mapsto> v))"

text \<open>
  \<^verbatim>\<open>ExtractorError\<close> carries a message and a cause; the negotiator inspects the
  cause for a \<^verbatim>\<open>json.JSONDecodeError\<close> and its position \<^verbatim>\<open>pos\<close>.
\<close>

datatype cause = NoCause | JSONDecodeError string nat | OtherCause string

datatype error =
    ExtractorError string cause
  | UnsupportedError string
  | KeyError string
  | AttributeError string
  | OtherError string

datatype 'a result = Returned 'a | Raised error

section \<open>The API access negotiator\<close>

type_synonym app_version = "string \<times> string"

text \<open>
  An extractor object: its identity and the class constants \<^verbatim>\<open>_call_api\<close> reads
  through \<^verbatim>\<open>self\<close>.
\<close>

record ie =
  ie_id :: nat
  APP_VERSIONS :: "app_version list"
  APP_NAME :: string
  AID :: int
  API_HOSTNAME :: string

definition TikTokBaseIE :: "nat \<Rightarrow> ie" where
  "TikTokBaseIE i = \<lparr> ie_id = i,
     APP_VERSIONS = [(''26.1.3'', ''260103''), (''26.1.2'', ''260102''),
                     (''26.1.1'', ''260101''), (''25.6.2'', ''250602'')],
     APP_NAME = ''trill'', AID = 1180, API_HOSTNAME = ''api-h2.tiktokv.com'' \<rparr>"

text \<open>The two extractor arguments; \<^verbatim>\<open>_configuration_arg(..., [''])[0]\<close> is the empty
  string when the operator gave none.\<close>

record conf =
  app_version_arg :: string
  manifest_app_version_arg :: string

text \<open>One HTTP call as \<^verbatim>\<open>_call_api_impl\<close> issues it.\<close>

record api_request =
  rq_url :: string
  rq_query :: pydict
  rq_user_agent_version :: string
  rq_fatal :: bool

datatype log_entry =
    DebugImported
  | WarnOnlyOne
  | WarnRetrying string nat nat
  | WarnCause string
  | WarnRetryManager string nat nat

text \<open>
  The state the negotiator reads and writes. \<^verbatim>\<open>_WORKING_APP_VERSION\<close> is a class
  attribute initialised to \<^verbatim>\<open>None\<close> and never assigned on the class; every
  assignment is \<^verbatim>\<open>self._WORKING_APP_VERSION = ...\<close>, which stores the pair in the
  attribute dictionary of the object \<^verbatim>\<open>self\<close>. A read through \<^verbatim>\<open>self\<close> finds the
  object's own entry, and the class's \<^verbatim>\<open>None\<close> when the object has none. So
  \<open>working\<close> maps an object to its own entry. \<open>requests\<close> lists the calls issued so
  far, \<open>log\<close> the messages reported, and \<open>printed\<close> the messages each extractor
  object has reported with \<^verbatim>\<open>only_once=True\<close>.
\<close>

record world =
  working :: "nat \<rightharpoonup> app_version"
  requests :: "api_request list"
  log :: "log_entry list"
  printed :: "(nat \<times> log_entry) list"

definition report :: "log_entry \<Rightarrow> world \<Rightarrow> world" where
  "report m w = w\<lparr>log := log w @ [m]\<rparr>"

text \<open>
  \<^verbatim>\<open>self.report_warning(..., only_once=True)\<close>. The method belongs to the host and is
  not part of the source file. The extractor object remembers the messages it has
  reported this way and does not report one of them again; another extractor object has
  a memory of its own. \<open>i\<close> is the identity of the reporting object.
\<close>

definition report_once :: "nat \<Rightarrow> log_entry \<Rightarrow> world \<Rightarrow> world" where
  "report_once i m w =
     (if (i, m) \<in> set (printed w) then w
      else report m (w\<lparr>printed := (i, m) # printed w\<rparr>))"

text \<open>
  \<^verbatim>\<open>_build_api_query\<close>: the caller's fields, overridden by the version fields and the
  fixed device and locale fields. The four fields drawn from the random generator and
  the clock (\<^verbatim>\<open>openudid\<close>, \<^verbatim>\<open>uuid\<close>, \<^verbatim>\<open>_rticket\<close>, \<^verbatim>\<open>ts\<close>) are set like the
  others, over any field of the caller with the same name; the value they get is not
  modelled and is written \<open>PFresh\<close>.
\<close>

definition build_api_query :: "ie \<Rightarrow> pydict \<Rightarrow> string \<Rightarrow> string \<Rightarrow> pydict" where
  "build_api_query self query app_version manifest_app_version =
     query ++ map_of [
       (''version_name'', PStr app_version),
       (''version_code'', PStr manifest_app_version),
       (''build_number'', PStr app_version),
       (''manifest_version_code'', PStr manifest_app_version),
       (''update_version_code'', PStr manifest_app_version),
       (''openudid'', PFresh),
       (''uuid'', PFresh),
       (''_rticket'', PFresh),
       (''ts'', PFresh),
       (''device_brand'', PStr ''Google''),
       (''device_type'', PStr ''Pixel 4''),
       (''device_platform'', PStr ''android''),
       (''resolution'', PStr ''1080*1920''),
       (''dpi'', PInt 420),
       (''os_version'', PStr ''10''),
       (''os_api'', PStr ''29''),
       (''carrier_region'', PStr ''US''),
       (''sys_region'', PStr ''US''),
       (''region'', PStr ''US''),
       (''app_name'', PStr (APP_NAME self)),
       (''app_language'', PStr ''en''),
       (''language'', PStr ''en''),
       (''timezone_name'', PStr ''America/New_York''),
       (''timezone_offset'', PStr ''-14400''),
       (''channel'', PStr ''googleplay''),
       (''ac'', PStr ''wifi''),
       (''mcc_mnc'', PStr ''310260''),
       (''is_my_cn'', PInt 0),
       (''aid'', PInt (AID self)),
       (''ssmix'', PStr ''a''),
       (''as'', PStr ''a1qwert123''),
       (''cp'', PStr ''cbfhckdckkde1'')]"

definition mk_request :: "ie \<Rightarrow> string \<Rightarrow> pydict \<Rightarrow> app_version \<Rightarrow> bool \<Rightarrow> api_request" where
  "mk_request self ep query v fatal =
     \<lparr> rq_url = ''https://'' @ API_HOSTNAME self @ ''/aweme/v1/'' @ ep @ ''/'',
       rq_query = build_api_query self query (fst v) (snd v),
       rq_user_agent_version = snd v,
       rq_fatal = fatal \<rparr>"

text \<open>
  \<^verbatim>\<open>_call_api_impl\<close> hands the request to the host's \<^verbatim>\<open>_download_json\<close>. The
  network is a parameter \<open>net\<close>: the outcome of the \<open>n\<close>-th call of the process, given
  the request. It returns the decoded body or raises. The cookies set before the call
  are not modelled.
\<close>

type_synonym 'j net = "nat \<Rightarrow> api_request \<Rightarrow> 'j result"

definition call_api_impl ::
  "'j net \<Rightarrow> ie \<Rightarrow> string \<Rightarrow> pydict \<Rightarrow> app_version \<Rightarrow> bool \<Rightarrow> world \<Rightarrow> 'j result \<times> world" where
  "call_api_impl net self ep query v fatal w =
     (let rq = mk_request self ep query v fatal
      in (net (length (requests w)) rq, w\<lparr>requests := requests w @ [rq]\<rparr>))"

text \<open>\<^verbatim>\<open>isinstance(e.cause, json.JSONDecodeError) and e.cause.pos == 0\<close>\<close>

fun retryable :: "error \<Rightarrow> bool" where
  "retryable (ExtractorError msg (JSONDecodeError m pos)) = (pos = 0)"
| "retryable e = False"

text \<open>\<^verbatim>\<open>str(e.cause or e.msg)\<close>, on the errors the loop catches.\<close>

fun cause_text :: "error \<Rightarrow> string" where
  "cause_text (ExtractorError msg (JSONDecodeError m pos)) = m"
| "cause_text (ExtractorError msg (OtherCause m)) = m"
| "cause_text (ExtractorError msg NoCause) = msg"
| "cause_text e = []"

text \<open>
  The loop \<^verbatim>\<open>for count, (app_version, manifest_app_version) in
  enumerate(self._APP_VERSIONS, start=1)\<close>: \<open>count\<close> is the number of the candidate at
  the head of the remaining list. Falling off the end of the loop returns \<^verbatim>\<open>None\<close>.
\<close>

fun try_versions ::
  "'j net \<Rightarrow> ie \<Rightarrow> string \<Rightarrow> pydict \<Rightarrow> bool \<Rightarrow> nat \<Rightarrow> app_version list \<Rightarrow> world
     \<Rightarrow> 'j option result \<times> world" where
  "try_versions net self ep query fatal count [] w = (Returned None, w)"
| "try_versions net self ep query fatal count (v # rest) w =
     (case call_api_impl net self ep query v fatal w of
        (Returned res, w1) \<Rightarrow>
          (Returned (Some res), w1\<lparr>working := (working w1)(ie_id self \<mapsto> v)\<rparr>)
      | (Raised e, w1) \<Rightarrow>
          if retryable e then
            if count = length (APP_VERSIONS self) then
              (if fatal then (Raised e, w1)
               else (Returned None, report (WarnCause (cause_text e)) w1))
            else try_versions net self ep query fatal (Suc count) rest
                   (report (WarnRetrying (cause_text e) count (length (APP_VERSIONS self))) w1)
          else (Raised e, w1))"

text \<open>The first block of \<^verbatim>\<open>_call_api\<close>: reading the extractor arguments when the
  object has no working version yet.\<close>

definition import_args :: "conf \<Rightarrow> ie \<Rightarrow> world \<Rightarrow> world" where
  "import_args c self w =
     (if working w (ie_id self) = None then
        (if app_version_arg c \<noteq> [] \<and> manifest_app_version_arg c \<noteq> [] then
           report DebugImported
             (w\<lparr>working := (working w)(ie_id self \<mapsto> (app_version_arg c, manifest_app_version_arg c))\<rparr>)
         else if app_version_arg c \<noteq> [] \<or> manifest_app_version_arg c \<noteq> [] then
           report_once (ie_id self) WarnOnlyOne w
         else w)
      else w)"

definition call_api ::
  "'j net \<Rightarrow> conf \<Rightarrow> ie \<Rightarrow> string \<Rightarrow> pydict \<Rightarrow> bool \<Rightarrow> world \<Rightarrow> 'j option result \<times> world" where
  "call_api net c self ep query fatal w =
     (let w0 = import_args c self w in
      case working w0 (ie_id self) of
        Some v \<Rightarrow>
          (case call_api_impl net self ep query v fatal w0 of
             (Returned res, w1) \<Rightarrow> (Returned (Some res), w1)
           | (Raised e, w1) \<Rightarrow> (Raised e, w1))
      | None \<Rightarrow> try_versions net self ep query fatal 1 (APP_VERSIONS self) w0)"

text \<open>A later call through the negotiator, and a run of such calls.\<close>

record api_call =
  c_conf :: conf
  c_self :: ie
  c_ep :: string
  c_query :: pydict
  c_fatal :: bool

definition do_call :: "'j net \<Rightarrow> api_call \<Rightarrow> world \<Rightarrow> world" where
  "do_call net c w = snd (call_api net (c_conf c) (c_self c) (c_ep c) (c_query c) (c_fatal c) w)"

fun run_calls :: "'j net \<Rightarrow> api_call list \<Rightarrow> world \<Rightarrow> world" where
  "run_calls net [] w = w"
| "run_calls net (c # cs) w = run_calls net cs (do_call net c w)"

definition request_version :: "api_request \<Rightarrow> pyval \<times> string" where
  "request_version rq = (dict_get (rq_query rq) ''version_name'', rq_user_agent_version rq)"

subsection \<open>Concrete runs of the negotiator\<close>

definition w_init :: world where
  "w_init = \<lparr> working = Map.empty, requests = [], log = [], printed = [] \<rparr>"

definition no_args :: conf where
  "no_args = \<lparr> app_version_arg = [], manifest_app_version_arg = [] \<rparr>"

definition empty_body :: error where
  "empty_body = ExtractorError ''Failed to parse JSON'' (JSONDecodeError ''Expecting value'' 0)"

definition net_third_ok :: "nat net" where
  "net_third_ok n rq = (if n < 2 then Raised empty_body else Returned n)"

definition net_empty :: "nat net" where
  "net_empty n rq = Raised empty_body"

definition feed_call :: "nat \<Rightarrow> api_call" where
  "feed_call i = \<lparr> c_conf = no_args, c_self = TikTokBaseIE i, c_ep = ''feed'',
                   c_query = Map.empty, c_fatal = True \<rparr>"

definition w_pinned :: world where
  "w_pinned = \<lparr> working = [0 \<mapsto> (''26.1.1'', ''260101'')], requests = [], log = [], printed = [] \<rparr>"

definition lone_arg :: conf where
  "lone_arg = \<lparr> app_version_arg = ''26.1.3'', manifest_app_version_arg = [] \<rparr>"

definition both_args :: conf where
  "both_args = \<lparr> app_version_arg = ''27.0.0'', manifest_app_version_arg = ''270000'' \<rparr>"

section \<open>The format reconciler for the native shape\<close>

subsection \<open>Strings\<close>

definition is_digit :: "char \<Rightarrow> bool" where
  "is_digit c = (c \<in> set ''0123456789'')"

definition digit_val :: "char \<Rightarrow> nat" where
  "digit_val c = length (takeWhile (\<lambda>d. d \<noteq> c) ''0123456789'')"

text \<open>\<^verbatim>\<open>int(s)\<close> on a string of decimal digits.\<close>

definition int_of_digits :: "string \<Rightarrow> int" where
  "int_of_digits s = int (foldl (\<lambda>a c. 10 * a + digit_val c) 0 s)"

text \<open>\<^verbatim>\<open>sub in s\<close> on strings.\<close>

fun contains :: "string \<Rightarrow> string \<Rightarrow> bool" where
  "contains sub [] = (sub = [])"
| "contains sub (c # cs) = (take (length sub) (c # cs) = sub \<or> contains sub cs)"

subsection \<open>The URL key\<close>

text \<open>
  \<^verbatim>\<open>parse_url_key\<close> searches the key for
  \<^verbatim>\<open>v[^_]+_(?P<id>(?P<codec>[^_]+)_(?P<res>\d+p)_(?P<bitrate>\d+))\<close>.
  After the letter \<^verbatim>\<open>v\<close> every piece of the pattern is a run of characters closed by
  a character outside the run, so the greedy match of a piece is the longest run and no
  shorter one can be followed by the next piece. \<open>match_after_v\<close> matches the rest of the
  pattern behind a \<^verbatim>\<open>v\<close>; \<open>search_url_key\<close> tries the start positions from the left, as
  \<^verbatim>\<open>re.search\<close> does. Digits are the ASCII digits. The result is the groups
  \<^verbatim>\<open>id\<close>, \<^verbatim>\<open>codec\<close>, \<^verbatim>\<open>res\<close>, \<^verbatim>\<open>bitrate\<close>.
\<close>

definition match_after_v :: "string \<Rightarrow> (string \<times> string \<times> string \<times> string) option" where
  "match_after_v s =
     (let seg = takeWhile (\<lambda>c. c \<noteq> CHR ''_'') s;
          r1 = dropWhile (\<lambda>c. c \<noteq> CHR ''_'') s
      in if seg = [] \<or> r1 = [] then None else
         let codec = takeWhile (\<lambda>c. c \<noteq> CHR ''_'') (tl r1);
             r2 = dropWhile (\<lambda>c. c \<noteq> CHR ''_'') (tl r1)
         in if codec = [] \<or> r2 = [] then None else
            let ds = takeWhile is_digit (tl r2);
                r3 = dropWhile is_digit (tl r2)
            in if ds = [] \<or> take 2 r3 \<noteq> ''p_'' then None else
               let br = takeWhile is_digit (drop 2 r3)
               in if br = [] then None
                  else Some (codec @ ''_'' @ ds @ ''p_'' @ br, codec, ds @ ''p'', br))"

fun search_url_key :: "string \<Rightarrow> (string \<times> string \<times> string \<times> string) option" where
  "search_url_key [] = None"
| "search_url_key (c # cs) =
     (case (if c = CHR ''v'' then match_after_v cs else None) of
        Some g \<Rightarrow> Some g
      | None \<Rightarrow> search_url_key cs)"

definition QUALITIES :: "string list" where
  "QUALITIES = [''360p'', ''540p'', ''720p'', ''1080p'']"

text \<open>
  Modelled from the spec: \<^verbatim>\<open>qualities\<close> of the host's utilities is not part of the
  source file; it ranks a tag by its place in the fixed tier ordering, and a tag outside
  the ordering below all of them.
\<close>

definition qualities :: "string list \<Rightarrow> string \<Rightarrow> int" where
  "qualities ids qid =
     (if qid \<in> set ids then int (length (takeWhile (\<lambda>x. x \<noteq> qid) ids)) else - 1)"

text \<open>
  \<^verbatim>\<open>parse_url_key\<close>: the metadata read from the key and the resolution tag, or the
  empty dictionary and \<^verbatim>\<open>None\<close>. \<^verbatim>\<open>int_or_none(bitrate, scale=1000) or None\<close> is the
  integer quotient, \<^verbatim>\<open>None\<close> when that is 0.
\<close>

definition parse_url_key :: "string \<Rightarrow> pydict \<times> string option" where
  "parse_url_key url_key =
     (case search_url_key url_key of
        None \<Rightarrow> (Map.empty, None)
      | Some (format_id, codec, res, bitrate) \<Rightarrow>
          ([''format_id'' \<mapsto> PStr format_id,
            ''vcodec'' \<mapsto> PStr (if codec = ''bytevc1'' then ''h265'' else codec),
            ''tbr'' \<mapsto> (if int_of_digits bitrate div 1000 = 0 then PNone
                         else PInt (int_of_digits bitrate div 1000)),
            ''quality'' \<mapsto> PInt (qualities QUALITIES res)],
           Some res))"

subsection \<open>Stream entries\<close>

text \<open>
  An address object of the payload, with the keys the code reads. A missing key is
  \<open>None\<close>. Where the code tests an address for truth (\<^verbatim>\<open>if video_info.get('play_addr')\<close>),
  the field holding it is \<open>None\<close> for a missing key, \<^verbatim>\<open>null\<close> and the empty object alike.
\<close>

record addr =
  url_key :: "string option"
  url_list :: "string list option"
  data_size :: "int option"

record bitrate_info =
  b_play_addr :: "addr option"
  b_gear_name :: "string option"
  b_bit_rate :: "int option"
  b_is_bytevc1 :: "int option"
  b_is_h265 :: "int option"
  b_FPS :: "int option"

record video_info =
  v_play_addr :: "addr option"
  v_download_addr :: "addr option"
  v_play_addr_h264 :: "addr option"
  v_play_addr_bytevc1 :: "addr option"
  v_bit_rate :: "bitrate_info list"
  v_width :: "int option"
  v_height :: "int option"
  v_has_watermark :: bool
  v_is_bytevc1 :: "int option"
  v_is_h265 :: "int option"
  v_cover :: "addr option"
  v_ai_dynamic_cover :: "addr option"
  v_animated_cover :: "addr option"
  v_ai_dynamic_cover_bak :: "addr option"
  v_origin_cover :: "addr option"
  v_dynamic_cover :: "addr option"

definition opt_int :: "int option \<Rightarrow> pyval" where
  "opt_int x = (case x of None \<Rightarrow> PNone | Some i \<Rightarrow> PInt i)"

definition opt_str :: "string option \<Rightarrow> pyval" where
  "opt_str x = (case x of None \<Rightarrow> PNone | Some s \<Rightarrow> PStr s)"

text \<open>
  \<^verbatim>\<open>traverse_obj(d, 'is_bytevc1', 'is_h265')\<close> tested for truth: the first of the two
  keys that holds a value decides.
\<close>

definition is_h265_flag :: "int option \<Rightarrow> int option \<Rightarrow> bool" where
  "is_h265_flag bytevc1 h265 =
     (case bytevc1 of Some v \<Rightarrow> v \<noteq> 0
      | None \<Rightarrow> (case h265 of Some v \<Rightarrow> v \<noteq> 0 | None \<Rightarrow> False))"

text \<open>\<^verbatim>\<open>join_nonempty(note, '(API)' if 'aweme/v1' in url else None, delim=' ')\<close>\<close>

definition format_note_of :: "pyval \<Rightarrow> string \<Rightarrow> string" where
  "format_note_of note url =
     (let api = contains ''aweme/v1'' url
      in case note of
           PStr n \<Rightarrow> (if n = [] then (if api then ''(API)'' else [])
                      else (if api then n @ '' (API)'' else n))
         | _ \<Rightarrow> (if api then ''(API)'' else []))"

text \<open>
  \<^verbatim>\<open>extract_addr\<close>, with the table \<^verbatim>\<open>known_resolutions\<close> passed in and handed back.
  The table maps a resolution tag to a dictionary with the keys \<^verbatim>\<open>height\<close> and
  \<^verbatim>\<open>width\<close>. One descriptor is built per URL of \<^verbatim>\<open>url_list\<close>; in the dictionary
  display the later entries override the earlier ones.
\<close>

type_synonym known_resolutions = "string \<rightharpoonup> pydict"

definition extract_addr :: "known_resolutions \<Rightarrow> addr \<Rightarrow> pydict \<Rightarrow> pydict list \<times> known_resolutions" where
  "extract_addr known a add_meta =
     (let (parsed_meta, res) = parse_url_key (case url_key a of None \<Rightarrow> [] | Some k \<Rightarrow> k);
          (known', parsed_meta', add_meta') =
            (case res of
               None \<Rightarrow> (known, parsed_meta, add_meta)
             | Some r \<Rightarrow>
                 let known1 = setdefault known r Map.empty;
                     d1 = setdefault (the (known1 r)) ''height'' (dict_get add_meta ''height'');
                     d2 = setdefault d1 ''width'' (dict_get add_meta ''width'')
                 in (known1(r \<mapsto> d2), parsed_meta ++ d2,
                     setdefault add_meta ''height'' (PInt (int_of_digits (butlast r)))))
      in (map (\<lambda>url.
                 (([''url'' \<mapsto> PStr url,
                    ''filesize'' \<mapsto> opt_int (data_size a),
                    ''ext'' \<mapsto> PStr ''mp4'',
                    ''acodec'' \<mapsto> PStr ''aac'',
                    ''source_preference'' \<mapsto> PInt (if contains ''aweme/v1'' url then - 2 else - 1)]
                   ++ add_meta' ++ parsed_meta')
                  (''format_note'' \<mapsto> PStr (format_note_of (dict_get add_meta' ''format_note'') url))))
              (case url_list a of None \<Rightarrow> [] | Some us \<Rightarrow> us),
          known'))"

text \<open>
  The calls of \<^verbatim>\<open>extract_addr\<close> in source order, each with its \<^verbatim>\<open>add_meta\<close>:
  \<^verbatim>\<open>play_addr\<close>, \<^verbatim>\<open>download_addr\<close>, \<^verbatim>\<open>play_addr_h264\<close>, \<^verbatim>\<open>play_addr_bytevc1\<close>, then
  the \<^verbatim>\<open>play_addr\<close> of every entry of the bitrate ladder.
\<close>

definition bitrate_entry :: "bitrate_info \<Rightarrow> (addr \<times> pydict) list" where
  "bitrate_entry b =
     (case b_play_addr b of
        None \<Rightarrow> []
      | Some a \<Rightarrow>
          [(a, [''format_id'' \<mapsto> opt_str (b_gear_name b),
                ''format_note'' \<mapsto> PStr ''Playback video'',
                ''tbr'' \<mapsto> (case b_bit_rate b of None \<Rightarrow> PNone
                             | Some x \<Rightarrow> PNum (of_int x / 1000)),
                ''vcodec'' \<mapsto> PStr (if is_h265_flag (b_is_bytevc1 b) (b_is_h265 b)
                                     then ''h265'' else ''h264''),
                ''fps'' \<mapsto> opt_int (b_FPS b)])])"

definition stream_entries :: "video_info \<Rightarrow> (addr \<times> pydict) list" where
  "stream_entries v =
     (case v_play_addr v of None \<Rightarrow> []
      | Some a \<Rightarrow>
          [(a, [''format_id'' \<mapsto> PStr ''play_addr'',
                ''format_note'' \<mapsto> PStr ''Direct video'',
                ''vcodec'' \<mapsto> PStr (if is_h265_flag (v_is_bytevc1 v) (v_is_h265 v)
                                     then ''h265'' else ''h264''),
                ''width'' \<mapsto> opt_int (v_width v),
                ''height'' \<mapsto> opt_int (v_height v)])])
     @ (case v_download_addr v of None \<Rightarrow> []
        | Some a \<Rightarrow>
          [(a, [''format_id'' \<mapsto> PStr ''download_addr'',
                ''format_note'' \<mapsto> PStr (''Download video''
                     @ (if v_has_watermark v then '', watermarked'' else [])),
                ''vcodec'' \<mapsto> PStr ''h264'',
                ''width'' \<mapsto> opt_int (v_width v),
                ''height'' \<mapsto> opt_int (v_height v),
                ''preference'' \<mapsto> PInt (if v_has_watermark v then - 2 else - 1)])])
     @ (case v_play_addr_h264 v of None \<Rightarrow> []
        | Some a \<Rightarrow>
          [(a, [''format_id'' \<mapsto> PStr ''play_addr_h264'',
                ''format_note'' \<mapsto> PStr ''Direct video'',
                ''vcodec'' \<mapsto> PStr ''h264''])])
     @ (case v_play_addr_bytevc1 v of None \<Rightarrow> []
        | Some a \<Rightarrow>
          [(a, [''format_id'' \<mapsto> PStr ''play_addr_bytevc1'',
                ''format_note'' \<mapsto> PStr ''Direct video'',
                ''vcodec'' \<mapsto> PStr ''h265''])])
     @ concat (map bitrate_entry (v_bit_rate v))"

text \<open>The descriptors of each entry, the table threaded through the calls.\<close>

fun extract_all :: "known_resolutions \<Rightarrow> (addr \<times> pydict) list \<Rightarrow> pydict list list" where
  "extract_all known [] = []"
| "extract_all known (e # es) =
     fst (extract_addr known (fst e) (snd e))
       # extract_all (snd (extract_addr known (fst e) (snd e))) es"

definition raw_formats :: "video_info \<Rightarrow> pydict list" where
  "raw_formats v = concat (extract_all Map.empty (stream_entries v))"

text \<open>The resolution tag \<^verbatim>\<open>parse_url_key\<close> finds for a stream entry.\<close>

definition entry_res :: "addr \<times> pydict \<Rightarrow> string option" where
  "entry_res e = snd (parse_url_key (case url_key (fst e) of None \<Rightarrow> [] | Some k \<Rightarrow> k))"

text \<open>Every dictionary of the table has both of its keys.\<close>

definition complete :: "known_resolutions \<Rightarrow> bool" where
  "complete known = (\<forall>r d. known r = Some d \<longrightarrow> ''height'' \<in> dom d \<and> ''width'' \<in> dom d)"

text \<open>The dictionary the table holds for a tag after an entry with that tag.\<close>

definition merged_dims :: "known_resolutions \<Rightarrow> string \<Rightarrow> pydict \<Rightarrow> pydict" where
  "merged_dims known r add_meta =
     setdefault (setdefault (the (setdefault known r Map.empty r))
                   ''height'' (dict_get add_meta ''height''))
       ''width'' (dict_get add_meta ''width'')"

subsection \<open>Thumbnails\<close>

definition cover_fields :: "video_info \<Rightarrow> (string \<times> addr option) list" where
  "cover_fields v =
     [(''cover'', v_cover v), (''ai_dynamic_cover'', v_ai_dynamic_cover v),
      (''animated_cover'', v_animated_cover v),
      (''ai_dynamic_cover_bak'', v_ai_dynamic_cover_bak v),
      (''origin_cover'', v_origin_cover v), (''dynamic_cover'', v_dynamic_cover v)]"

text \<open>
  The loop over the cover fields: a thumbnail is the pair of \<^verbatim>\<open>id\<close> and \<^verbatim>\<open>url\<close>;
  \<^verbatim>\<open>cover['url_list']\<close> raises when the key is missing.
\<close>

fun thumbnails_loop :: "(string \<times> addr option) list \<Rightarrow> error + (string \<times> string) list" where
  "thumbnails_loop [] = Inr []"
| "thumbnails_loop ((cover_id, None) # rest) = thumbnails_loop rest"
| "thumbnails_loop ((cover_id, Some cover) # rest) =
     (case url_list cover of
        None \<Rightarrow> Inl (KeyError ''url_list'')
      | Some us \<Rightarrow>
          (case thumbnails_loop rest of
             Inl e \<Rightarrow> Inl e
           | Inr ts \<Rightarrow> Inr (map (Pair cover_id) us @ ts)))"

definition thumbnails :: "video_info \<Rightarrow> error + (string \<times> string) list" where
  "thumbnails v = thumbnails_loop (cover_fields v)"

subsection \<open>Track attribution\<close>













subsection \<open>Subtitles\<close>

text \<open>Decimal digits of a number, as \<^verbatim>\<open>str\<close> or \<^verbatim>\<open>%d\<close> print it.\<close>

fun str_nat :: "nat \<Rightarrow> string" where
  "str_nat n = (if n < 10 then [''0123456789'' ! n]
                else str_nat (n div 10) @ [''0123456789'' ! (n mod 10)])"

declare str_nat.simps [simp del]

text \<open>\<^verbatim>\<open>%02d\<close> and \<^verbatim>\<open>%03d\<close>: padded with zeros on the left to the given width.\<close>

definition zero_pad :: "nat \<Rightarrow> nat \<Rightarrow> string" where
  "zero_pad width n = replicate (width - length (str_nat n)) CHR ''0'' @ str_nat n"

text \<open>
  Modelled from the spec: \<^verbatim>\<open>srt_subtitles_timecode\<close> of the host's utilities is not
  part of the source file; it prints a time as \<^verbatim>\<open>HH:MM:SS,mmm\<close>. The source hands it
  the millisecond time divided by 1000; the model works on the whole milliseconds, which
  is the same time whenever the floating-point quotient loses nothing, as for whole
  seconds.
\<close>

definition srt_subtitles_timecode_ms :: "nat \<Rightarrow> string" where
  "srt_subtitles_timecode_ms ms =
     zero_pad 2 (ms div 3600000) @ '':'' @ zero_pad 2 ((ms div 60000) mod 60) @ '':''
       @ zero_pad 2 ((ms div 1000) mod 60) @ '','' @ zero_pad 3 (ms mod 1000)"

record utterance =
  start_time :: nat
  end_time :: nat
  u_text :: "string option"

text \<open>A line tested by \<^verbatim>\<open>if line.get('text')\<close>: the text is there and not empty.\<close>

definition has_text :: "utterance \<Rightarrow> bool" where
  "has_text line = (case u_text line of None \<Rightarrow> False | Some t \<Rightarrow> t \<noteq> [])"

text \<open>
  One cue: the f-string of the source, with \<open>i\<close> the index \<^verbatim>\<open>enumerate\<close> gave the
  line. The line break is the character 10.
\<close>

definition cue :: "nat \<Rightarrow> utterance \<Rightarrow> string" where
  "cue i line =
     str_nat (i + 1) @ [CHR 0x0A]
       @ srt_subtitles_timecode_ms (start_time line) @ '' --> ''
       @ srt_subtitles_timecode_ms (end_time line) @ [CHR 0x0A]
       @ (case u_text line of None \<Rightarrow> [] | Some t \<Rightarrow> t)"

text \<open>\<^verbatim>\<open>sep.join(parts)\<close>\<close>

fun join :: "string \<Rightarrow> string list \<Rightarrow> string" where
  "join sep [] = []"
| "join sep [p] = p"
| "join sep (p # q # ps) = p @ sep @ join sep (q # ps)"

text \<open>
  The \<^verbatim>\<open>data\<close> of one caption: the generator enumerates all utterances and keeps the
  pairs whose line has a text.
\<close>

definition srt_data :: "utterance list \<Rightarrow> string" where
  "srt_data utterances =
     join [CHR 0x0A, CHR 0x0A]
       (map (\<lambda>(i, line). cue i line)
            (filter (\<lambda>(i, line). has_text line) (enumerate 0 utterances)))"

text \<open>
  A caption of the payload: the first valid URL of \<^verbatim>\<open>url.url_list\<close> and the language.
  \<open>fetch\<close> is the download of the caption file: \<open>None\<close> when it fails or gives nothing,
  else the utterances of the payload.
\<close>

record caption =
  caption_url :: "string option"
  language :: "string option"

fun get_subtitles ::
  "(string \<Rightarrow> utterance list option) \<Rightarrow> caption list \<Rightarrow> (string \<rightharpoonup> (string \<times> string) list)
     \<Rightarrow> (string \<rightharpoonup> (string \<times> string) list)" where
  "get_subtitles fetch [] subtitles = subtitles"
| "get_subtitles fetch (c # cs) subtitles =
     (case caption_url c of
        None \<Rightarrow> get_subtitles fetch cs subtitles
      | Some u \<Rightarrow>
          (case fetch u of
             None \<Rightarrow> get_subtitles fetch cs subtitles
           | Some utterances \<Rightarrow>
               (let lang = (case language c of None \<Rightarrow> ''en'' | Some l \<Rightarrow> l);
                    tracks = (case subtitles lang of None \<Rightarrow> [] | Some ts \<Rightarrow> ts)
                in get_subtitles fetch cs
                     (subtitles(lang \<mapsto> tracks @ [(''srt'', srt_data utterances)])))))"

section \<open>The short-link extractor\<close>

text \<open>
  \<^verbatim>\<open>suitable\<close> of the host matches the URL against \<^verbatim>\<open>_VALID_URL\<close> from its start;
  for \<^verbatim>\<open>TikTokVMIE\<close> the pattern is \<^verbatim>\<open>https?://(?:vm|vt)\.tiktok\.com/(?P<id>\w+)\<close>.
  Word characters are the ASCII letters, digits and the underscore.
\<close>

definition is_word :: "char \<Rightarrow> bool" where
  "is_word c = (c \<in> set ''abcdefghijklmnopqrstuvwxyzABCDEFGHIJKLMNOPQRSTUVWXYZ0123456789_'')"

definition strip_prefix :: "string \<Rightarrow> string \<Rightarrow> string option" where
  "strip_prefix p s = (if take (length p) s = p then Some (drop (length p) s) else None)"

definition vm_suitable :: "string \<Rightarrow> bool" where
  "vm_suitable url =
     (case strip_prefix ''http'' url of
        None \<Rightarrow> False
      | Some r0 \<Rightarrow>
          (case strip_prefix ''://'' (case strip_prefix ''s'' r0 of None \<Rightarrow> r0 | Some r \<Rightarrow> r) of
             None \<Rightarrow> False
           | Some r1 \<Rightarrow>
               (case (case strip_prefix ''vm'' r1 of None \<Rightarrow> strip_prefix ''vt'' r1 | Some r \<Rightarrow> Some r) of
                  None \<Rightarrow> False
                | Some r2 \<Rightarrow>
                    (case strip_prefix ''.tiktok.com/'' r2 of
                       None \<Rightarrow> False
                     | Some r3 \<Rightarrow> r3 \<noteq> [] \<and> is_word (hd r3)))))"

text \<open>
  \<^verbatim>\<open>TikTokVMIE._real_extract\<close>. \<open>head\<close> is the HEAD request of the host: the URL the
  link resolves to, or the error raised. The result is the URL handed to
  \<^verbatim>\<open>url_result\<close>, together with the list of HEAD requests made.
\<close>

definition vm_real_extract :: "(string \<Rightarrow> error + string) \<Rightarrow> string \<Rightarrow> (error + string) \<times> string list" where
  "vm_real_extract head url =
     (case head url of
        Inl e \<Rightarrow> (Inl e, [url])
      | Inr new_url \<Rightarrow>
          (if vm_suitable new_url then (Inl (UnsupportedError new_url), [url])
           else (Inr new_url, [url])))"

subsection \<open>Concrete inputs\<close>

definition head_to_vt :: "string \<Rightarrow> error + string" where
  "head_to_vt url = Inr ''https://vt.tiktok.com/ZSe4FqkKd''"

definition head_to_video :: "string \<Rightarrow> error + string" where
  "head_to_video url = Inr ''https://www.tiktok.com/@susmandem/video/7023491746608712966''"

definition no_streams :: video_info where
  "no_streams = \<lparr> v_play_addr = None, v_download_addr = None, v_play_addr_h264 = None,
     v_play_addr_bytevc1 = None, v_bit_rate = [], v_width = None, v_height = None,
     v_has_watermark = False, v_is_bytevc1 = None, v_is_h265 = None,
     v_cover = None, v_ai_dynamic_cover = None, v_animated_cover = None,
     v_ai_dynamic_cover_bak = None, v_origin_cover = None, v_dynamic_cover = None \<rparr>"

definition image :: "string \<Rightarrow> addr" where
  "image u = \<lparr> url_key = None, url_list = Some [u], data_size = None \<rparr>"

definition two_covers :: video_info where
  "two_covers = no_streams \<lparr> v_cover := Some (image ''https://p16/cover.webp''),
     v_origin_cover := Some (image ''https://p16/origin.webp'') \<rparr>"



definition utterances_gap :: "utterance list" where
  "utterances_gap = [\<lparr> start_time = 0, end_time = 1000, u_text = Some [] \<rparr>,
                     \<lparr> start_time = 1000, end_time = 2000, u_text = Some ''hi'' \<rparr>]"

definition fetch_gap :: "string \<Rightarrow> utterance list option" where
  "fetch_gap u = Some utterances_gap"

definition caption_en :: caption where
  "caption_en = \<lparr> caption_url = Some ''https://v16/captions.json'', language = None \<rparr>"

definition stream_540 :: "string \<Rightarrow> addr" where
  "stream_540 u = \<lparr> url_key = Some ''v1_h264_540p_1047055'', url_list = Some [u], data_size = Some 2000000 \<rparr>"

definition ladder_540 :: bitrate_info where
  "ladder_540 = \<lparr> b_play_addr = Some (stream_540 ''https://v16/ladder.mp4''),
     b_gear_name = Some ''normal_540_0'', b_bit_rate = Some 1047055, b_is_bytevc1 = None,
     b_is_h265 = None, b_FPS = None \<rparr>"

definition video_540 :: video_info where
  "video_540 = no_streams \<lparr> v_play_addr := Some (stream_540 ''https://v16/play.mp4''),
     v_bit_rate := [ladder_540], v_width := Some 576, v_height := Some 1024 \<rparr>"

section \<open>The collection pagination driver\<close>

text \<open>
  One page of a listing, with the keys \<^verbatim>\<open>_entries\<close> reads: \<^verbatim>\<open>aweme_list\<close> (empty
  when missing), \<^verbatim>\<open>has_more\<close> tested for truth, and \<^verbatim>\<open>cursor\<close>, whose lookup raises
  when the key is missing.
\<close>

record 'a page =
  aweme_list :: "'a list"
  has_more :: bool
  cursor :: "pyval option"

text \<open>
  The loop \<^verbatim>\<open>for retry in self.RetryManager()\<close> around the call. \<^verbatim>\<open>RetryManager\<close>
  belongs to the host and is not part of the source file: it runs the body again while
  the body sets \<^verbatim>\<open>retry.error\<close>, reports each failed attempt as a warning, and raises
  the error once the attempts allowed by the host's setting \<^verbatim>\<open>extractor_retries\<close> are
  used up. \<open>retries\<close> is that setting and \<open>left\<close> the number of further attempts
  allowed. The call is made with the default \<^verbatim>\<open>fatal=True\<close>.
\<close>

fun fetch_page ::
  "'j net \<Rightarrow> conf \<Rightarrow> ie \<Rightarrow> string \<Rightarrow> pydict \<Rightarrow> nat \<Rightarrow> nat \<Rightarrow> world \<Rightarrow> 'j option result \<times> world" where
  "fetch_page net c self ep query retries 0 w = call_api net c self ep query True w"
| "fetch_page net c self ep query retries (Suc left) w =
     (case call_api net c self ep query True w of
        (Returned r, w1) \<Rightarrow> (Returned r, w1)
      | (Raised e, w1) \<Rightarrow>
          if retryable e
          then fetch_page net c self ep query retries left
                 (report (WarnRetryManager (cause_text e) (retries - left) retries) w1)
          else (Raised e, w1))"

text \<open>
  The inner loop over the videos of a page. \<open>parse\<close> builds the record yielded for one
  video (\<^verbatim>\<open>_parse_aweme_video_app\<close> and the three keys added to its result) or raises;
  the records yielded before an error have reached the consumer.
\<close>

fun yield_videos :: "('a \<Rightarrow> error + 'r) \<Rightarrow> 'a list \<Rightarrow> 'r list \<times> error option" where
  "yield_videos parse [] = ([], None)"
| "yield_videos parse (video # videos) =
     (case parse video of
        Inl e \<Rightarrow> ([], Some e)
      | Inr r \<Rightarrow> (r # fst (yield_videos parse videos), snd (yield_videos parse videos)))"

text \<open>
  The loop \<^verbatim>\<open>for page in itertools.count(1)\<close>, run until the generator ends. The
  result is the list of records yielded, the error that ended the generator (\<open>None\<close>
  when it ended by \<^verbatim>\<open>break\<close>) and the state; it is \<open>None\<close> when the generator is still
  running after \<open>fuel\<close> pages.
\<close>

fun entries_loop ::
  "'a page net \<Rightarrow> conf \<Rightarrow> ie \<Rightarrow> string \<Rightarrow> nat \<Rightarrow> ('a \<Rightarrow> error + 'r) \<Rightarrow> nat \<Rightarrow> pydict \<Rightarrow> world
     \<Rightarrow> ('r list \<times> error option \<times> world) option" where
  "entries_loop net c self ep retries parse 0 query w = None"
| "entries_loop net c self ep retries parse (Suc fuel) query w =
     (case fetch_page net c self ep query retries retries w of
        (Raised e, w1) \<Rightarrow> Some ([], Some e, w1)
      | (Returned None, w1) \<Rightarrow> Some ([], Some (AttributeError ''get''), w1)
      | (Returned (Some post_list), w1) \<Rightarrow>
          (case yield_videos parse (aweme_list post_list) of
             (ys, Some e) \<Rightarrow> Some (ys, Some e, w1)
           | (ys, None) \<Rightarrow>
               if \<not> has_more post_list then Some (ys, None, w1)
               else (case cursor post_list of
                       None \<Rightarrow> Some (ys, Some (KeyError ''cursor''), w1)
                     | Some cur \<Rightarrow>
                         (case entries_loop net c self ep retries parse fuel
                                 (query(''cursor'' \<mapsto> cur)) w1 of
                            None \<Rightarrow> None
                          | Some (zs, err, w2) \<Rightarrow> Some (ys @ zs, err, w2)))))"

text \<open>
  \<^verbatim>\<open>TikTokBaseListIE._entries\<close>: \<open>query_name\<close> and \<open>api_endpoint\<close> are the class
  constants \<^verbatim>\<open>_QUERY_NAME\<close> and \<^verbatim>\<open>_API_ENDPOINT\<close>; the device id is drawn at random.
\<close>

definition entries ::
  "'a page net \<Rightarrow> conf \<Rightarrow> ie \<Rightarrow> string \<Rightarrow> string \<Rightarrow> nat \<Rightarrow> ('a \<Rightarrow> error + 'r) \<Rightarrow> nat \<Rightarrow> string
     \<Rightarrow> world \<Rightarrow> ('r list \<times> error option \<times> world) option" where
  "entries net c self query_name api_endpoint retries parse fuel list_id w =
     entries_loop net c self api_endpoint retries parse fuel
       [query_name \<mapsto> PStr list_id, ''cursor'' \<mapsto> PInt 0, ''count'' \<mapsto> PInt 20,
        ''type'' \<mapsto> PInt 5, ''device_id'' \<mapsto> PFresh] w"

definition page_one :: "nat page" where
  "page_one = \<lparr> aweme_list = [1, 2], has_more = True, cursor = Some (PInt 20) \<rparr>"

definition page_two :: "nat page" where
  "page_two = \<lparr> aweme_list = [3], has_more = False, cursor = None \<rparr>"

definition net_two_pages :: "nat page net" where
  "net_two_pages n rq = (if n = 0 then Returned page_one else Returned page_two)"

section \<open>Properties of the negotiator\<close>

lemma working_report [simp]: "working (report m w) = working w"
  and requests_report [simp]: "requests (report m w) = requests w"
  and log_report [simp]: "log (report m w) = log w @ [m]"
  by (simp_all add: report_def)

lemma printed_report [simp]: "printed (report m w) = printed w"
  by (simp add: report_def)

lemma working_report_once [simp]: "working (report_once i m w) = working w"
  and requests_report_once [simp]: "requests (report_once i m w) = requests w"
  by (simp_all add: report_once_def)

lemma try_versions_success:
  assumes "k < length vs"
    and "\<forall>i<k. \<exists>msg m. net (length (requests w) + i) (mk_request self ep q (vs ! i) fatal)
            = Raised (ExtractorError msg (JSONDecodeError m 0))"
    and "net (length (requests w) + k) (mk_request self ep q (vs ! k) fatal) = Returned j"
    and "count + length vs = Suc (length (APP_VERSIONS self))"
  shows "fst (try_versions net self ep q fatal count vs w) = Returned (Some j)
       \<and> requests (snd (try_versions net self ep q fatal count vs w))
           = requests w @ map (\<lambda>v. mk_request self ep q v fatal) (take (Suc k) vs)
       \<and> working (snd (try_versions net self ep q fatal count vs w))
           = (working w)(ie_id self \<mapsto> vs ! k)"
  using assms
proof (induction vs arbitrary: k count w)
  case Nil
  then show ?case by simp
next
  case (Cons v rest)
  show ?case
  proof (cases k)
    case 0
    with Cons.prems show ?thesis
      by (simp add: call_api_impl_def Let_def)
  next
    case (Suc k')
    have "0 < k" using Suc by simp
    from Cons.prems(2)[rule_format, OF this] obtain msg m where
      "net (length (requests w) + 0) (mk_request self ep q ((v # rest) ! 0) fatal)
            = Raised (ExtractorError msg (JSONDecodeError m 0))"
      by blast
    then have e: "net (length (requests w)) (mk_request self ep q v fatal)
            = Raised (ExtractorError msg (JSONDecodeError m 0))"
      by simp
    let ?w1 = "report (WarnRetrying m count (length (APP_VERSIONS self)))
                 (w\<lparr>requests := requests w @ [mk_request self ep q v fatal]\<rparr>)"
    have notlast: "count \<noteq> length (APP_VERSIONS self)"
      using Cons.prems(1,4) Suc by simp
    have step: "try_versions net self ep q fatal count (v # rest) w
                = try_versions net self ep q fatal (Suc count) rest ?w1"
      using e notlast by (simp add: call_api_impl_def Let_def)
    have len: "length (requests ?w1) = Suc (length (requests w))" by simp
    have a1: "k' < length rest" using Cons.prems(1) Suc by simp
    have a2: "\<forall>i<k'. \<exists>msg m. net (length (requests ?w1) + i) (mk_request self ep q (rest ! i) fatal)
            = Raised (ExtractorError msg (JSONDecodeError m 0))"
    proof (intro allI impI)
      fix i assume "i < k'"
      then have "Suc i < k" using Suc by simp
      from Cons.prems(2)[rule_format, OF this] obtain msg' m' where
        "net (length (requests w) + Suc i) (mk_request self ep q ((v # rest) ! Suc i) fatal)
            = Raised (ExtractorError msg' (JSONDecodeError m' 0))"
        by blast
      moreover have "length (requests ?w1) + i = length (requests w) + Suc i" by simp
      ultimately show "\<exists>msg m. net (length (requests ?w1) + i) (mk_request self ep q (rest ! i) fatal)
            = Raised (ExtractorError msg (JSONDecodeError m 0))"
        by simp
    qed
    have a3: "net (length (requests ?w1) + k') (mk_request self ep q (rest ! k') fatal) = Returned j"
      using Cons.prems(3) Suc by simp
    have a4: "Suc count + length rest = Suc (length (APP_VERSIONS self))"
      using Cons.prems(4) by simp
    from Cons.IH[OF a1 a2 a3 a4] show ?thesis
      unfolding step using Suc by simp
  qed
qed

lemma try_versions_other:
  "i \<noteq> ie_id self \<Longrightarrow> working (snd (try_versions net self ep q fatal count vs w)) i = working w i"
  by (induction vs arbitrary: count w)
     (auto simp: call_api_impl_def Let_def split: result.splits prod.splits)

lemma try_versions_log:
  "count_list (log (snd (try_versions net self ep q fatal count vs w))) WarnOnlyOne
     = count_list (log w) WarnOnlyOne"
  by (induction vs arbitrary: count w)
     (auto simp: call_api_impl_def Let_def split: result.splits prod.splits)

lemma call_api_pinned_eq:
  "working w (ie_id self) = Some v \<Longrightarrow>
   call_api net c self ep q fatal w =
     (case net (length (requests w)) (mk_request self ep q v fatal) of
        Returned res \<Rightarrow> Returned (Some res) | Raised e \<Rightarrow> Raised e,
      w\<lparr>requests := requests w @ [mk_request self ep q v fatal]\<rparr>)"
  by (simp add: call_api_def import_args_def call_api_impl_def Let_def split: result.splits)

lemma import_args_other:
  "i \<noteq> ie_id self \<Longrightarrow> working (import_args c self w) i = working w i"
  by (simp add: import_args_def)

lemma call_api_other:
  assumes "i \<noteq> ie_id self"
  shows "working (snd (call_api net c self ep q fatal w)) i = working w i"
proof (cases "working (import_args c self w) (ie_id self)")
  case None
  then show ?thesis
    using assms by (simp add: call_api_def try_versions_other import_args_other)
next
  case (Some v)
  then show ?thesis
    using assms
    by (simp add: call_api_def call_api_impl_def Let_def import_args_other split: result.splits)
qed

lemma do_call_keeps_pin:
  assumes "working w i = Some v"
  shows "working (do_call net c w) i = Some v"
proof (cases "ie_id (c_self c) = i")
  case True
  with assms show ?thesis
    by (simp add: do_call_def call_api_pinned_eq)
next
  case False
  then have "i \<noteq> ie_id (c_self c)" by auto
  with assms show ?thesis
    by (simp add: do_call_def call_api_other)
qed

lemma run_calls_keeps_pin:
  "working w i = Some v \<Longrightarrow> working (run_calls net cs w) i = Some v"
  by (induction cs arbitrary: w) (simp_all add: do_call_keeps_pin)

lemma call_api_unpinned_eq:
  assumes "working w (ie_id self) = None"
    and "app_version_arg c = [] \<or> manifest_app_version_arg c = []"
  shows "call_api net c self ep q fatal w
         = try_versions net self ep q fatal 1 (APP_VERSIONS self) (import_args c self w)"
  using assms by (auto simp: call_api_def import_args_def)

text \<open>
  Claim C1, as amended. While the extractor object has no working version and the operator
  did not supply both overrides, \<^verbatim>\<open>_call_api\<close> tries the candidates of
  \<^verbatim>\<open>_APP_VERSIONS\<close> in list order. If the calls for the first \<open>k\<close> candidates fail
  with a JSON decode error at position 0 and the call for candidate \<open>k\<close> returns, then
  exactly these \<open>k + 1\<close> requests are issued, in list order, the result of the last one is
  returned, and candidate \<open>k\<close> is stored as the working version of the calling object.
  After any run of later calls (through this or other extractor objects), a call through
  the same object issues a single request with that candidate and hands back its outcome.
\<close>

theorem call_api_negotiates:
  assumes "working w (ie_id self) = None"
    and "app_version_arg c = [] \<or> manifest_app_version_arg c = []"
    and "k < length (APP_VERSIONS self)"
    and "\<forall>i<k. \<exists>msg m. net (length (requests w) + i)
                        (mk_request self ep q (APP_VERSIONS self ! i) fatal)
            = Raised (ExtractorError msg (JSONDecodeError m 0))"
    and "net (length (requests w) + k) (mk_request self ep q (APP_VERSIONS self ! k) fatal)
            = Returned j"
  shows "fst (call_api net c self ep q fatal w) = Returned (Some j)
       \<and> requests (snd (call_api net c self ep q fatal w))
           = requests w @ map (\<lambda>v. mk_request self ep q v fatal) (take (Suc k) (APP_VERSIONS self))
       \<and> working (snd (call_api net c self ep q fatal w)) (ie_id self)
           = Some (APP_VERSIONS self ! k)
       \<and> (\<forall>cs c' ep' q' fatal'.
            let w2 = run_calls net cs (snd (call_api net c self ep q fatal w));
                rq = mk_request self ep' q' (APP_VERSIONS self ! k) fatal'
            in call_api net c' self ep' q' fatal' w2
               = (case net (length (requests w2)) rq of
                    Returned res \<Rightarrow> Returned (Some res) | Raised e \<Rightarrow> Raised e,
                  w2\<lparr>requests := requests w2 @ [rq]\<rparr>))"
proof -
  let ?w0 = "import_args c self w"
  have rq0: "requests ?w0 = requests w"
    using assms(2) by (auto simp: import_args_def)
  have wk0: "working ?w0 = working w"
    using assms(2) by (auto simp: import_args_def)
  have eq: "call_api net c self ep q fatal w
            = try_versions net self ep q fatal 1 (APP_VERSIONS self) ?w0"
    using assms(1,2) by (rule call_api_unpinned_eq)
  have main: "fst (try_versions net self ep q fatal 1 (APP_VERSIONS self) ?w0) = Returned (Some j)
       \<and> requests (snd (try_versions net self ep q fatal 1 (APP_VERSIONS self) ?w0))
           = requests ?w0 @ map (\<lambda>v. mk_request self ep q v fatal) (take (Suc k) (APP_VERSIONS self))
       \<and> working (snd (try_versions net self ep q fatal 1 (APP_VERSIONS self) ?w0))
           = (working ?w0)(ie_id self \<mapsto> APP_VERSIONS self ! k)"
    using assms(3,4,5) by (intro try_versions_success) (simp_all add: rq0)
  have pin: "working (snd (call_api net c self ep q fatal w)) (ie_id self)
             = Some (APP_VERSIONS self ! k)"
    using main by (simp add: eq)
  have later: "\<forall>cs c' ep' q' fatal'.
            let w2 = run_calls net cs (snd (call_api net c self ep q fatal w));
                rq = mk_request self ep' q' (APP_VERSIONS self ! k) fatal'
            in call_api net c' self ep' q' fatal' w2
               = (case net (length (requests w2)) rq of
                    Returned res \<Rightarrow> Returned (Some res) | Raised e \<Rightarrow> Raised e,
                  w2\<lparr>requests := requests w2 @ [rq]\<rparr>)"
    unfolding Let_def
    by (intro allI call_api_pinned_eq run_calls_keeps_pin pin)
  show ?thesis
    using main pin later by (simp add: eq rq0)
qed

text \<open>
  Claim C2. When the calling object has a working version \<open>v\<close> (from an earlier
  success, or from the two operator overrides read at the start of this call), exactly
  one request is issued, with \<open>v\<close>; whatever error that call raises, the JSON decode
  error at position 0 included, is raised to the caller, no other candidate is tried, and
  the working version stays \<open>v\<close>.
\<close>

theorem call_api_pinned_propagates:
  assumes "working w (ie_id self) = Some v
         \<or> (working w (ie_id self) = None \<and> app_version_arg c \<noteq> [] \<and> manifest_app_version_arg c \<noteq> []
            \<and> v = (app_version_arg c, manifest_app_version_arg c))"
  shows "(\<forall>e. net (length (requests w)) (mk_request self ep q v fatal) = Raised e
             \<longrightarrow> fst (call_api net c self ep q fatal w) = Raised e)
       \<and> (\<forall>res. net (length (requests w)) (mk_request self ep q v fatal) = Returned res
             \<longrightarrow> fst (call_api net c self ep q fatal w) = Returned (Some res))
       \<and> requests (snd (call_api net c self ep q fatal w))
           = requests w @ [mk_request self ep q v fatal]
       \<and> working (snd (call_api net c self ep q fatal w)) (ie_id self) = Some v"
  using assms
  by (auto simp: call_api_def import_args_def call_api_impl_def Let_def split: result.splits)

lemma count_report_once:
  "count_list (log (report_once i m w)) m
     = count_list (log w) m + (if (i, m) \<in> set (printed w) then 0 else 1)"
  by (simp add: report_once_def report_def)

lemma printed_report_once: "(i, m) \<in> set (printed (report_once i m w))"
  by (simp add: report_once_def report_def)

lemma try_versions_printed:
  "printed (snd (try_versions net self ep q fatal count vs w)) = printed w"
  by (induction vs arbitrary: count w)
     (auto simp: call_api_impl_def Let_def split: result.splits prod.splits)

lemma try_versions_prefix:
  "\<exists>n. n \<le> length vs \<and> (vs \<noteq> [] \<longrightarrow> 0 < n)
      \<and> requests (snd (try_versions net self ep q fatal count vs w))
          = requests w @ map (\<lambda>v. mk_request self ep q v fatal) (take n vs)"
proof (induction vs arbitrary: count w)
  case Nil
  show ?case by simp
next
  case (Cons v rest)
  let ?rq = "mk_request self ep q v fatal"
  let ?w1 = "w\<lparr>requests := requests w @ [?rq]\<rparr>"
  show ?case
  proof (cases "\<exists>e. net (length (requests w)) ?rq = Raised e \<and> retryable e
                     \<and> count \<noteq> length (APP_VERSIONS self)")
    case True
    then obtain e where e: "net (length (requests w)) ?rq = Raised e" "retryable e"
      "count \<noteq> length (APP_VERSIONS self)"
      by blast
    let ?w2 = "report (WarnRetrying (cause_text e) count (length (APP_VERSIONS self))) ?w1"
    have step: "try_versions net self ep q fatal count (v # rest) w
                = try_versions net self ep q fatal (Suc count) rest ?w2"
      using e by (simp add: call_api_impl_def Let_def)
    from Cons.IH[of "Suc count" ?w2] obtain n where n: "n \<le> length rest"
      "requests (snd (try_versions net self ep q fatal (Suc count) rest ?w2))
         = requests ?w2 @ map (\<lambda>v. mk_request self ep q v fatal) (take n rest)"
      by blast
    have "Suc n \<le> length (v # rest) \<and> (v # rest \<noteq> [] \<longrightarrow> 0 < Suc n)
      \<and> requests (snd (try_versions net self ep q fatal count (v # rest) w))
          = requests w @ map (\<lambda>v. mk_request self ep q v fatal) (take (Suc n) (v # rest))"
      unfolding step using n by simp
    then show ?thesis by blast
  next
    case False
    then have "requests (snd (try_versions net self ep q fatal count (v # rest) w))
               = requests w @ [?rq]"
      by (auto simp: call_api_impl_def Let_def split: result.splits)
    then have "1 \<le> length (v # rest) \<and> (v # rest \<noteq> [] \<longrightarrow> 0 < (1::nat))
      \<and> requests (snd (try_versions net self ep q fatal count (v # rest) w))
          = requests w @ map (\<lambda>v. mk_request self ep q v fatal) (take 1 (v # rest))"
      by simp
    then show ?thesis by blast
  qed
qed

lemma try_versions_exhaust:
  assumes "\<forall>i<length vs. \<exists>msg m. net (length (requests w) + i) (mk_request self ep q (vs ! i) fatal)
            = Raised (ExtractorError msg (JSONDecodeError m 0))"
    and "count + length vs = Suc (length (APP_VERSIONS self))"
  shows "requests (snd (try_versions net self ep q fatal count vs w))
           = requests w @ map (\<lambda>v. mk_request self ep q v fatal) vs
       \<and> working (snd (try_versions net self ep q fatal count vs w)) = working w"
  using assms
proof (induction vs arbitrary: count w)
  case Nil
  show ?case by simp
next
  case (Cons v rest)
  have "0 < length (v # rest)" by simp
  from Cons.prems(1)[rule_format, OF this] obtain msg m where
    "net (length (requests w) + 0) (mk_request self ep q ((v # rest) ! 0) fatal)
       = Raised (ExtractorError msg (JSONDecodeError m 0))"
    by blast
  then have e: "net (length (requests w)) (mk_request self ep q v fatal)
       = Raised (ExtractorError msg (JSONDecodeError m 0))"
    by simp
  show ?case
  proof (cases rest)
    case Nil
    then have "count = length (APP_VERSIONS self)" using Cons.prems(2) by simp
    with e Nil show ?thesis
      by (simp add: call_api_impl_def Let_def)
  next
    case (Cons v' rest')
    then have notlast: "count \<noteq> length (APP_VERSIONS self)"
      using Cons.prems(2) by simp
    let ?w1 = "report (WarnRetrying m count (length (APP_VERSIONS self)))
                 (w\<lparr>requests := requests w @ [mk_request self ep q v fatal]\<rparr>)"
    have step: "try_versions net self ep q fatal count (v # rest) w
                = try_versions net self ep q fatal (Suc count) rest ?w1"
      using e notlast by (simp add: call_api_impl_def Let_def)
    have a1: "\<forall>i<length rest. \<exists>msg m. net (length (requests ?w1) + i)
                (mk_request self ep q (rest ! i) fatal)
            = Raised (ExtractorError msg (JSONDecodeError m 0))"
    proof (intro allI impI)
      fix i assume "i < length rest"
      then have "Suc i < length (v # rest)" by simp
      from Cons.prems(1)[rule_format, OF this] obtain msg' m' where
        "net (length (requests w) + Suc i) (mk_request self ep q ((v # rest) ! Suc i) fatal)
            = Raised (ExtractorError msg' (JSONDecodeError m' 0))"
        by blast
      moreover have "length (requests ?w1) + i = length (requests w) + Suc i" by simp
      ultimately show "\<exists>msg m. net (length (requests ?w1) + i)
                (mk_request self ep q (rest ! i) fatal)
            = Raised (ExtractorError msg (JSONDecodeError m 0))"
        by simp
    qed
    have a2: "Suc count + length rest = Suc (length (APP_VERSIONS self))"
      using Cons.prems(2) by simp
    from Cons.IH[OF a1 a2] show ?thesis
      unfolding step by simp
  qed
qed

text \<open>
  Claim C10. Let the calling object have no working version. When exactly one of the two
  override arguments is given, the call is the call without overrides made after the
  warning has been reported through \<^verbatim>\<open>only_once\<close>: the warning is added to the log
  once, or not at all when this object has reported it before, and the object remembers
  it. The requests issued are those for the first \<open>n\<close> built-in candidates, in list
  order, so the value of the lone override reaches no request. If the calls for the
  first \<open>k\<close> candidates fail with a JSON decode error at position 0 and the next one
  returns, the first \<open>k + 1\<close> candidates are tried and candidate \<open>k\<close> is pinned; if the
  calls for all candidates fail that way, the whole list is tried and nothing is pinned.
  When both overrides are given, the pair becomes the working version and the only
  request issued carries it.
\<close>

theorem lone_override_ignored:
  assumes "working w (ie_id self) = None"
  shows "((app_version_arg c = []) \<noteq> (manifest_app_version_arg c = []) \<longrightarrow>
            call_api net c self ep q fatal w
              = call_api net no_args self ep q fatal (report_once (ie_id self) WarnOnlyOne w)
          \<and> count_list (log (snd (call_api net c self ep q fatal w))) WarnOnlyOne
              = count_list (log w) WarnOnlyOne
                + (if (ie_id self, WarnOnlyOne) \<in> set (printed w) then 0 else 1)
          \<and> (ie_id self, WarnOnlyOne) \<in> set (printed (snd (call_api net c self ep q fatal w)))
          \<and> (\<exists>n. n \<le> length (APP_VERSIONS self) \<and> (APP_VERSIONS self \<noteq> [] \<longrightarrow> 0 < n)
                \<and> requests (snd (call_api net c self ep q fatal w))
                    = requests w @ map (\<lambda>v. mk_request self ep q v fatal)
                                       (take n (APP_VERSIONS self)))
          \<and> (\<forall>k j. k < length (APP_VERSIONS self)
                \<and> (\<forall>i<k. \<exists>msg m. net (length (requests w) + i)
                              (mk_request self ep q (APP_VERSIONS self ! i) fatal)
                            = Raised (ExtractorError msg (JSONDecodeError m 0)))
                \<and> net (length (requests w) + k)
                      (mk_request self ep q (APP_VERSIONS self ! k) fatal) = Returned j
                \<longrightarrow> fst (call_api net c self ep q fatal w) = Returned (Some j)
                  \<and> requests (snd (call_api net c self ep q fatal w))
                      = requests w @ map (\<lambda>v. mk_request self ep q v fatal)
                                         (take (Suc k) (APP_VERSIONS self))
                  \<and> working (snd (call_api net c self ep q fatal w)) (ie_id self)
                      = Some (APP_VERSIONS self ! k))
          \<and> ((\<forall>i<length (APP_VERSIONS self). \<exists>msg m. net (length (requests w) + i)
                              (mk_request self ep q (APP_VERSIONS self ! i) fatal)
                            = Raised (ExtractorError msg (JSONDecodeError m 0)))
                \<longrightarrow> requests (snd (call_api net c self ep q fatal w))
                      = requests w @ map (\<lambda>v. mk_request self ep q v fatal) (APP_VERSIONS self)
                  \<and> working (snd (call_api net c self ep q fatal w)) (ie_id self) = None))
       \<and> (app_version_arg c \<noteq> [] \<and> manifest_app_version_arg c \<noteq> [] \<longrightarrow>
            working (snd (call_api net c self ep q fatal w)) (ie_id self)
              = Some (app_version_arg c, manifest_app_version_arg c)
          \<and> requests (snd (call_api net c self ep q fatal w))
              = requests w @ [mk_request self ep q (app_version_arg c, manifest_app_version_arg c) fatal])"
proof (intro conjI impI)
  assume both: "app_version_arg c \<noteq> [] \<and> manifest_app_version_arg c \<noteq> []"
  with assms show "working (snd (call_api net c self ep q fatal w)) (ie_id self)
              = Some (app_version_arg c, manifest_app_version_arg c)"
    by (auto simp: call_api_def import_args_def call_api_impl_def Let_def split: result.splits)
  from both assms show "requests (snd (call_api net c self ep q fatal w))
              = requests w @ [mk_request self ep q (app_version_arg c, manifest_app_version_arg c) fatal]"
    by (auto simp: call_api_def import_args_def call_api_impl_def Let_def split: result.splits)
next
  assume lone: "(app_version_arg c = []) \<noteq> (manifest_app_version_arg c = [])"
  let ?w0 = "report_once (ie_id self) WarnOnlyOne w"
  let ?vs = "APP_VERSIONS self"
  have ia: "import_args c self w = ?w0"
    using lone assms by (auto simp: import_args_def)
  have l: "call_api net c self ep q fatal w = try_versions net self ep q fatal 1 ?vs ?w0"
    using lone assms by (subst call_api_unpinned_eq) (auto simp: ia)
  have r: "call_api net no_args self ep q fatal ?w0 = try_versions net self ep q fatal 1 ?vs ?w0"
    using assms by (subst call_api_unpinned_eq) (auto simp: no_args_def import_args_def)
  show "call_api net c self ep q fatal w = call_api net no_args self ep q fatal ?w0"
    by (simp add: l r)
  show "count_list (log (snd (call_api net c self ep q fatal w))) WarnOnlyOne
              = count_list (log w) WarnOnlyOne
                + (if (ie_id self, WarnOnlyOne) \<in> set (printed w) then 0 else 1)"
    by (simp only: l try_versions_log count_report_once)
  show "(ie_id self, WarnOnlyOne) \<in> set (printed (snd (call_api net c self ep q fatal w)))"
    by (simp only: l try_versions_printed printed_report_once)
  show "\<exists>n. n \<le> length ?vs \<and> (?vs \<noteq> [] \<longrightarrow> 0 < n)
                \<and> requests (snd (call_api net c self ep q fatal w))
                    = requests w @ map (\<lambda>v. mk_request self ep q v fatal) (take n ?vs)"
    using try_versions_prefix[of ?vs net self ep q fatal 1 ?w0] by (simp add: l)
  show "\<forall>k j. k < length ?vs
                \<and> (\<forall>i<k. \<exists>msg m. net (length (requests w) + i)
                              (mk_request self ep q (?vs ! i) fatal)
                            = Raised (ExtractorError msg (JSONDecodeError m 0)))
                \<and> net (length (requests w) + k) (mk_request self ep q (?vs ! k) fatal) = Returned j
                \<longrightarrow> fst (call_api net c self ep q fatal w) = Returned (Some j)
                  \<and> requests (snd (call_api net c self ep q fatal w))
                      = requests w @ map (\<lambda>v. mk_request self ep q v fatal) (take (Suc k) ?vs)
                  \<and> working (snd (call_api net c self ep q fatal w)) (ie_id self)
                      = Some (?vs ! k)"
  proof (intro allI impI)
    fix k j
    assume h: "k < length ?vs
                \<and> (\<forall>i<k. \<exists>msg m. net (length (requests w) + i)
                              (mk_request self ep q (?vs ! i) fatal)
                            = Raised (ExtractorError msg (JSONDecodeError m 0)))
                \<and> net (length (requests w) + k) (mk_request self ep q (?vs ! k) fatal) = Returned j"
    have "fst (try_versions net self ep q fatal 1 ?vs ?w0) = Returned (Some j)
       \<and> requests (snd (try_versions net self ep q fatal 1 ?vs ?w0))
           = requests ?w0 @ map (\<lambda>v. mk_request self ep q v fatal) (take (Suc k) ?vs)
       \<and> working (snd (try_versions net self ep q fatal 1 ?vs ?w0))
           = (working ?w0)(ie_id self \<mapsto> ?vs ! k)"
      using h by (intro try_versions_success) simp_all
    then show "fst (call_api net c self ep q fatal w) = Returned (Some j)
                  \<and> requests (snd (call_api net c self ep q fatal w))
                      = requests w @ map (\<lambda>v. mk_request self ep q v fatal) (take (Suc k) ?vs)
                  \<and> working (snd (call_api net c self ep q fatal w)) (ie_id self)
                      = Some (?vs ! k)"
      by (simp add: l)
  qed
  show "requests (snd (call_api net c self ep q fatal w))
          = requests w @ map (\<lambda>v. mk_request self ep q v fatal) ?vs"
    if "\<forall>i<length ?vs. \<exists>msg m. net (length (requests w) + i)
                              (mk_request self ep q (?vs ! i) fatal)
                            = Raised (ExtractorError msg (JSONDecodeError m 0))"
    using try_versions_exhaust[of ?vs net ?w0 self ep q fatal 1] that by (simp add: l)
  show "working (snd (call_api net c self ep q fatal w)) (ie_id self) = None"
    if "\<forall>i<length ?vs. \<exists>msg m. net (length (requests w) + i)
                              (mk_request self ep q (?vs ! i) fatal)
                            = Raised (ExtractorError msg (JSONDecodeError m 0))"
    using try_versions_exhaust[of ?vs net ?w0 self ep q fatal 1] that assms by (simp add: l)
qed

text \<open>
  The built-in list of four candidates, the first two calls answered with an empty body
  and the third with a body: the third candidate is pinned after three requests.
\<close>

theorem call_api_negotiates_witness:
  "fst (call_api net_third_ok no_args (TikTokBaseIE 0) ''feed'' Map.empty True w_init)
     = Returned (Some 2)
   \<and> working (snd (call_api net_third_ok no_args (TikTokBaseIE 0) ''feed'' Map.empty True w_init)) 0
     = Some (''26.1.1'', ''260101'')
   \<and> length (requests (snd (call_api net_third_ok no_args (TikTokBaseIE 0) ''feed'' Map.empty True w_init)))
     = 3"
proof -
  have h1: "working w_init (ie_id (TikTokBaseIE 0)) = None"
    by (simp add: w_init_def)
  have h2: "app_version_arg no_args = [] \<or> manifest_app_version_arg no_args = []"
    by (simp add: no_args_def)
  have h3: "2 < length (APP_VERSIONS (TikTokBaseIE 0))"
    by (simp add: TikTokBaseIE_def)
  have h4: "\<forall>i<2. \<exists>msg m. net_third_ok (length (requests w_init) + i)
                 (mk_request (TikTokBaseIE 0) ''feed'' Map.empty (APP_VERSIONS (TikTokBaseIE 0) ! i) True)
               = Raised (ExtractorError msg (JSONDecodeError m 0))"
    by (simp add: net_third_ok_def w_init_def empty_body_def)
  have h5: "net_third_ok (length (requests w_init) + 2)
                 (mk_request (TikTokBaseIE 0) ''feed'' Map.empty (APP_VERSIONS (TikTokBaseIE 0) ! 2) True)
               = Returned 2"
    by (simp add: net_third_ok_def w_init_def)
  note c = call_api_negotiates[OF h1 h2 h3 h4 h5]
  have v: "APP_VERSIONS (TikTokBaseIE 0) ! 2 = (''26.1.1'', ''260101'')"
    by (simp add: TikTokBaseIE_def)
  have i: "ie_id (TikTokBaseIE 0) = 0" by (simp add: TikTokBaseIE_def)
  have r: "requests w_init = []" by (simp add: w_init_def)
  have n: "length (APP_VERSIONS (TikTokBaseIE 0)) = 4" by (simp add: TikTokBaseIE_def)
  from c show ?thesis
    by (simp add: v i r n)
qed

text \<open>
  Claim C1 as stated does not hold: the pin is not shared by the process. After one
  extractor object has pinned the third candidate, the next call through the negotiator,
  made by another extractor object, starts again from the first candidate.
\<close>

theorem pin_is_per_object:
  "working (do_call net_third_ok (feed_call 0) w_init) 0 = Some (''26.1.1'', ''260101'')
   \<and> map request_version (requests (run_calls net_third_ok [feed_call 0, feed_call 1] w_init))
     = [(PStr ''26.1.3'', ''260103''), (PStr ''26.1.2'', ''260102''),
        (PStr ''26.1.1'', ''260101''), (PStr ''26.1.3'', ''260103'')]"
  by (simp add: do_call_def call_api_def import_args_def call_api_impl_def Let_def
        feed_call_def no_args_def w_init_def TikTokBaseIE_def net_third_ok_def empty_body_def
        mk_request_def build_api_query_def request_version_def dict_get_def report_def)

text \<open>
  A pinned object whose call is answered with an empty body: the error reaches the
  caller after a single request.
\<close>

theorem call_api_pinned_propagates_witness:
  "fst (call_api net_empty no_args (TikTokBaseIE 0) ''feed'' Map.empty True w_pinned)
     = Raised empty_body
   \<and> requests (snd (call_api net_empty no_args (TikTokBaseIE 0) ''feed'' Map.empty True w_pinned))
     = [mk_request (TikTokBaseIE 0) ''feed'' Map.empty (''26.1.1'', ''260101'') True]"
proof -
  have h: "working w_pinned (ie_id (TikTokBaseIE 0)) = Some (''26.1.1'', ''260101'')
         \<or> (working w_pinned (ie_id (TikTokBaseIE 0)) = None \<and> app_version_arg no_args \<noteq> []
            \<and> manifest_app_version_arg no_args \<noteq> []
            \<and> (''26.1.1'', ''260101'') = (app_version_arg no_args, manifest_app_version_arg no_args))"
    by (simp add: w_pinned_def TikTokBaseIE_def)
  note c = call_api_pinned_propagates[OF h, of net_empty "''feed''" Map.empty True]
  have e: "net_empty (length (requests w_pinned))
             (mk_request (TikTokBaseIE 0) ''feed'' Map.empty (''26.1.1'', ''260101'') True)
           = Raised empty_body"
    by (simp add: net_empty_def)
  have r: "requests w_pinned = []" by (simp add: w_pinned_def)
  from c e show ?thesis by (simp add: r)
qed

text \<open>
  A lone \<^verbatim>\<open>app_version\<close> override on a fresh state, with the first two calls answered
  by an empty body: the warning is logged once, the three requests carry the first three
  built-in candidates and the third is pinned. A complete pair is pinned at once.
\<close>

theorem lone_override_ignored_witness:
  "call_api net_third_ok lone_arg (TikTokBaseIE 0) ''feed'' Map.empty True w_init
     = call_api net_third_ok no_args (TikTokBaseIE 0) ''feed'' Map.empty True
         (report_once 0 WarnOnlyOne w_init)
   \<and> count_list (log (snd (call_api net_third_ok lone_arg (TikTokBaseIE 0) ''feed'' Map.empty True w_init)))
        WarnOnlyOne = 1
   \<and> map request_version
        (requests (snd (call_api net_third_ok lone_arg (TikTokBaseIE 0) ''feed'' Map.empty True w_init)))
     = [(PStr ''26.1.3'', ''260103''), (PStr ''26.1.2'', ''260102''), (PStr ''26.1.1'', ''260101'')]
   \<and> working (snd (call_api net_third_ok lone_arg (TikTokBaseIE 0) ''feed'' Map.empty True w_init)) 0
     = Some (''26.1.1'', ''260101'')
   \<and> working (snd (call_api net_third_ok both_args (TikTokBaseIE 0) ''feed'' Map.empty True w_init)) 0
     = Some (''27.0.0'', ''270000'')"
proof -
  let ?self = "TikTokBaseIE 0"
  have h: "working w_init (ie_id ?self) = None"
    by (simp add: w_init_def)
  have l: "(app_version_arg lone_arg = []) \<noteq> (manifest_app_version_arg lone_arg = [])"
    by (simp add: lone_arg_def)
  have b: "app_version_arg both_args \<noteq> [] \<and> manifest_app_version_arg both_args \<noteq> []"
    by (simp add: both_args_def)
  have n: "(ie_id ?self, WarnOnlyOne) \<notin> set (printed w_init)" by (simp add: w_init_def)
  have lg: "log w_init = []" by (simp add: w_init_def)
  have r: "requests w_init = []" by (simp add: w_init_def)
  have i: "ie_id ?self = 0" by (simp add: TikTokBaseIE_def)
  have vs: "APP_VERSIONS ?self = [(''26.1.3'', ''260103''), (''26.1.2'', ''260102''),
                     (''26.1.1'', ''260101''), (''25.6.2'', ''250602'')]"
    by (simp add: TikTokBaseIE_def)
  have ba: "app_version_arg both_args = ''27.0.0''" "manifest_app_version_arg both_args = ''270000''"
    by (simp_all add: both_args_def)
  have k: "2 < length (APP_VERSIONS ?self)
           \<and> (\<forall>i<2. \<exists>msg m. net_third_ok (length (requests w_init) + i)
                 (mk_request ?self ''feed'' Map.empty (APP_VERSIONS ?self ! i) True)
               = Raised (ExtractorError msg (JSONDecodeError m 0)))
           \<and> net_third_ok (length (requests w_init) + 2)
                 (mk_request ?self ''feed'' Map.empty (APP_VERSIONS ?self ! 2) True) = Returned 2"
    by (simp add: net_third_ok_def w_init_def empty_body_def vs)
  note c1 = lone_override_ignored[OF h, of lone_arg net_third_ok "''feed''" Map.empty True]
  note c2 = lone_override_ignored[OF h, of both_args net_third_ok "''feed''" Map.empty True]
  note d = c1[THEN conjunct1, THEN mp, OF l]
  have A: "call_api net_third_ok lone_arg ?self ''feed'' Map.empty True w_init
     = call_api net_third_ok no_args ?self ''feed'' Map.empty True (report_once 0 WarnOnlyOne w_init)"
    using d[THEN conjunct1] by (simp only: i)
  have B: "count_list (log (snd (call_api net_third_ok lone_arg ?self ''feed'' Map.empty True w_init)))
        WarnOnlyOne = 1"
    using d[THEN conjunct2, THEN conjunct1] n by (simp add: lg)
  note D = d[THEN conjunct2, THEN conjunct2, THEN conjunct2, THEN conjunct2, THEN conjunct1,
             rule_format, OF k]
  have D1: "map request_version
        (requests (snd (call_api net_third_ok lone_arg ?self ''feed'' Map.empty True w_init)))
     = [(PStr ''26.1.3'', ''260103''), (PStr ''26.1.2'', ''260102''), (PStr ''26.1.1'', ''260101'')]"
    using D by (simp add: r vs request_version_def mk_request_def build_api_query_def dict_get_def)
  have D2: "working (snd (call_api net_third_ok lone_arg ?self ''feed'' Map.empty True w_init)) 0
     = Some (''26.1.1'', ''260101'')"
    using D by (simp add: i vs)
  have C: "working (snd (call_api net_third_ok both_args ?self ''feed'' Map.empty True w_init)) 0
     = Some (''27.0.0'', ''270000'')"
    using c2 b by (simp add: i ba)
  show ?thesis
    by (intro conjI) (rule A, rule B, rule D1, rule D2, rule C)
qed

section \<open>Properties of the short-link extractor\<close>

text \<open>
  Claim C9, as amended. When the HEAD request resolves the short link to a URL that the
  short-link pattern itself matches (the link itself is such a URL), extraction fails
  with \<^verbatim>\<open>UnsupportedError\<close>; otherwise the resolved URL is handed on as the new
  extraction target. In both cases a single HEAD request is made.
\<close>

theorem vm_real_extract_redirect:
  assumes "head url = Inr new_url"
  shows "(vm_suitable new_url \<longrightarrow> fst (vm_real_extract head url) = Inl (UnsupportedError new_url))
       \<and> (\<not> vm_suitable new_url \<longrightarrow> fst (vm_real_extract head url) = Inr new_url)
       \<and> (vm_suitable url \<and> new_url = url \<longrightarrow> fst (vm_real_extract head url) = Inl (UnsupportedError url))
       \<and> snd (vm_real_extract head url) = [url]"
  using assms by (simp add: vm_real_extract_def)

lemma vm_suitable_vt: "vm_suitable ''https://vt.tiktok.com/ZSe4FqkKd''"
  by (simp add: vm_suitable_def strip_prefix_def is_word_def)

lemma vm_suitable_video: "\<not> vm_suitable ''https://www.tiktok.com/@susmandem/video/7023491746608712966''"
  by (simp add: vm_suitable_def strip_prefix_def is_word_def)

text \<open>
  A link that resolves to itself and a link that resolves to a video page.
\<close>

theorem vm_real_extract_redirect_witness:
  "fst (vm_real_extract head_to_vt ''https://vt.tiktok.com/ZSe4FqkKd'')
     = Inl (UnsupportedError ''https://vt.tiktok.com/ZSe4FqkKd'')
   \<and> fst (vm_real_extract head_to_video ''https://vm.tiktok.com/ZSe4FqkKd'')
     = Inr ''https://www.tiktok.com/@susmandem/video/7023491746608712966''
   \<and> snd (vm_real_extract head_to_video ''https://vm.tiktok.com/ZSe4FqkKd'')
     = [''https://vm.tiktok.com/ZSe4FqkKd'']"
proof -
  have h1: "head_to_vt ''https://vt.tiktok.com/ZSe4FqkKd'' = Inr ''https://vt.tiktok.com/ZSe4FqkKd''"
    by (simp add: head_to_vt_def)
  have h2: "head_to_video ''https://vm.tiktok.com/ZSe4FqkKd''
            = Inr ''https://www.tiktok.com/@susmandem/video/7023491746608712966''"
    by (simp add: head_to_video_def)
  note a = vm_real_extract_redirect[of head_to_vt "''https://vt.tiktok.com/ZSe4FqkKd''" "''https://vt.tiktok.com/ZSe4FqkKd''", OF h1]
  note b = vm_real_extract_redirect[of head_to_video "''https://vm.tiktok.com/ZSe4FqkKd''" "''https://www.tiktok.com/@susmandem/video/7023491746608712966''", OF h2]
  have A: "fst (vm_real_extract head_to_vt ''https://vt.tiktok.com/ZSe4FqkKd'')
     = Inl (UnsupportedError ''https://vt.tiktok.com/ZSe4FqkKd'')"
    using a[THEN conjunct2, THEN conjunct2, THEN conjunct1] vm_suitable_vt by blast
  have B: "fst (vm_real_extract head_to_video ''https://vm.tiktok.com/ZSe4FqkKd'')
     = Inr ''https://www.tiktok.com/@susmandem/video/7023491746608712966''"
    using b[THEN conjunct2, THEN conjunct1] vm_suitable_video by blast
  note C = b[THEN conjunct2, THEN conjunct2, THEN conjunct2]
  show ?thesis by (intro conjI) (rule A, rule B, rule C)
qed

text \<open>
  Claim C9 as stated does not hold: a link that resolves to another short link, not to
  itself, is not handed on but refused.
\<close>

theorem short_link_to_other_short_link:
  "''https://vt.tiktok.com/ZSe4FqkKd'' \<noteq> ''https://vm.tiktok.com/ZSe4FqkKd''
   \<and> fst (vm_real_extract head_to_vt ''https://vm.tiktok.com/ZSe4FqkKd'')
     = Inl (UnsupportedError ''https://vt.tiktok.com/ZSe4FqkKd'')"
  by (simp add: vm_real_extract_def head_to_vt_def vm_suitable_def strip_prefix_def is_word_def)

section \<open>Properties of the thumbnails\<close>

lemma thumbnails_loop_all:
  assumes "\<forall>(cover_id, c) \<in> set cfs. \<forall>a. c = Some a \<longrightarrow> url_list a \<noteq> None"
  shows "thumbnails_loop cfs
         = Inr (concat (map (\<lambda>(cover_id, c). case c of None \<Rightarrow> []
                              | Some a \<Rightarrow> map (Pair cover_id) (the (url_list a))) cfs))"
  using assms
proof (induction cfs rule: thumbnails_loop.induct)
  case 1
  show ?case by simp
next
  case (2 cover_id rest)
  then show ?case by simp
next
  case (3 cover_id cover rest)
  from "3.prems" obtain us where us: "url_list cover = Some us" by auto
  from "3.prems" have "\<forall>(cover_id, c) \<in> set rest. \<forall>a. c = Some a \<longrightarrow> url_list a \<noteq> None"
    by simp
  with "3.IH"[OF us] us show ?case by simp
qed

text \<open>
  Claim C8, as amended. The thumbnail list takes the cover fields in the fixed order
  \<^verbatim>\<open>cover\<close>, \<^verbatim>\<open>ai_dynamic_cover\<close>, \<^verbatim>\<open>animated_cover\<close>, \<^verbatim>\<open>ai_dynamic_cover_bak\<close>,
  \<^verbatim>\<open>origin_cover\<close>, \<^verbatim>\<open>dynamic_cover\<close>, and every field that is present contributes
  all URLs of its \<^verbatim>\<open>url_list\<close>, each tagged with the name of the field.
\<close>

theorem thumbnails_from_every_field:
  assumes "\<forall>(cover_id, c) \<in> set (cover_fields v). \<forall>a. c = Some a \<longrightarrow> url_list a \<noteq> None"
  shows "thumbnails v
         = Inr (concat (map (\<lambda>(cover_id, c). case c of None \<Rightarrow> []
                              | Some a \<Rightarrow> map (Pair cover_id) (the (url_list a)))
                            (cover_fields v)))"
  unfolding thumbnails_def using assms by (rule thumbnails_loop_all)

text \<open>
  Claim C8 as stated does not hold: the first available field does not win. With
  \<^verbatim>\<open>cover\<close> and \<^verbatim>\<open>origin_cover\<close> both present, both are listed.
\<close>

theorem two_covers_both_listed:
  "thumbnails two_covers
     = Inr [(''cover'', ''https://p16/cover.webp''), (''origin_cover'', ''https://p16/origin.webp'')]"
  by (simp add: thumbnails_def cover_fields_def two_covers_def no_streams_def image_def)

text \<open>The same item, through the theorem.\<close>

theorem thumbnails_from_every_field_witness:
  "thumbnails two_covers
     = Inr (concat (map (\<lambda>(cover_id, c). case c of None \<Rightarrow> []
                              | Some a \<Rightarrow> map (Pair cover_id) (the (url_list a)))
                        (cover_fields two_covers)))"
proof -
  have h: "\<forall>(cover_id, c) \<in> set (cover_fields two_covers). \<forall>a. c = Some a \<longrightarrow> url_list a \<noteq> None"
    by (simp add: cover_fields_def two_covers_def no_streams_def image_def)
  show ?thesis by (rule thumbnails_from_every_field[OF h])
qed

section \<open>Properties of the track attribution\<close>




section \<open>Properties of the subtitles\<close>

lemma str_nat_small:
  "str_nat 0 = ''0''" "str_nat (Suc 0) = ''1''" "str_nat (Suc (Suc 0)) = ''2''" "str_nat 2 = ''2''"
  by (simp_all add: str_nat.simps)

lemma replicate_small: "replicate 2 x = [x, x]" "replicate 3 x = [x, x, x]"
  by (simp_all add: numeral_2_eq_2 numeral_3_eq_3)

lemma zero_pad_small:
  "zero_pad 2 0 = ''00''" "zero_pad 2 (Suc 0) = ''01''" "zero_pad 2 2 = ''02''"
  "zero_pad 3 0 = ''000''"
  by (simp_all add: zero_pad_def str_nat_small replicate_small)

lemma timecode_seconds:
  "srt_subtitles_timecode_ms 0 = ''00:00:00,000''"
  "srt_subtitles_timecode_ms 1000 = ''00:00:01,000''"
  "srt_subtitles_timecode_ms 2000 = ''00:00:02,000''"
  by (simp_all add: srt_subtitles_timecode_ms_def zero_pad_small)

lemma srt_data_gap:
  "srt_data utterances_gap
     = ''2'' @ [CHR 0x0A] @ ''00:00:01,000 --> 00:00:02,000'' @ [CHR 0x0A] @ ''hi''"
  by (simp add: srt_data_def utterances_gap_def has_text_def cue_def timecode_seconds
        str_nat_small)

lemma srt_data_single:
  "srt_data [\<lparr> start_time = 0, end_time = 1000, u_text = Some ''hi'' \<rparr>]
     = ''1'' @ [CHR 0x0A] @ ''00:00:00,000 --> 00:00:01,000'' @ [CHR 0x0A] @ ''hi''"
  by (simp add: srt_data_def has_text_def cue_def timecode_seconds str_nat_small)

text \<open>
  Claim C6. The cue number is the position of the line among all utterances, while
  lines without text are dropped: with an empty first line, the only cue of the caption
  is numbered 2, not 1.
\<close>

theorem cue_number_counts_dropped_lines:
  "get_subtitles fetch_gap [caption_en] Map.empty ''en''
     = Some [(''srt'', ''2'' @ [CHR 0x0A] @ ''00:00:01,000 --> 00:00:02,000'' @ [CHR 0x0A] @ ''hi'')]"
  by (simp add: fetch_gap_def caption_en_def srt_data_gap)

section \<open>Properties of the resolution table\<close>

lemma setdefault_dom: "k \<in> dom (setdefault d k v)"
  by (simp add: setdefault_def)

lemma setdefault_keeps: "k' \<in> dom d \<Longrightarrow> setdefault d k v k' = d k'"
  by (auto simp: setdefault_def)

lemma setdefault_mono: "k' \<in> dom d \<Longrightarrow> k' \<in> dom (setdefault d k v)"
  by (auto simp: setdefault_def)

lemma merged_dims_dom:
  "''height'' \<in> dom (merged_dims known r m)" "''width'' \<in> dom (merged_dims known r m)"
  by (simp_all add: merged_dims_def setdefault_dom setdefault_mono)

lemma merged_dims_known:
  "known r = Some t \<Longrightarrow> ''height'' \<in> dom t \<Longrightarrow> ''width'' \<in> dom t \<Longrightarrow> merged_dims known r m = t"
  by (auto simp: merged_dims_def setdefault_def)

lemma merged_dims_new:
  "known r = None \<Longrightarrow>
     merged_dims known r m ''width'' = Some (dict_get m ''width'')
   \<and> merged_dims known r m ''height'' = Some (dict_get m ''height'')"
  by (auto simp: merged_dims_def setdefault_def)

lemma extract_addr_table_none:
  "entry_res (a, m) = None \<Longrightarrow> snd (extract_addr known a m) = known"
  by (cases "parse_url_key (case url_key a of None \<Rightarrow> [] | Some k \<Rightarrow> k)")
     (simp add: extract_addr_def entry_res_def)

lemma extract_addr_table_some:
  "entry_res (a, m) = Some r \<Longrightarrow> snd (extract_addr known a m) = known(r \<mapsto> merged_dims known r m)"
  by (cases "parse_url_key (case url_key a of None \<Rightarrow> [] | Some k \<Rightarrow> k)")
     (auto simp: extract_addr_def entry_res_def Let_def merged_dims_def setdefault_def)

lemma extract_addr_dims:
  assumes "entry_res (a, m) = Some r" and "d \<in> set (fst (extract_addr known a m))"
  shows "d ''width'' = merged_dims known r m ''width''
       \<and> d ''height'' = merged_dims known r m ''height''"
proof -
  obtain pm where pm: "parse_url_key (case url_key a of None \<Rightarrow> [] | Some k \<Rightarrow> k) = (pm, Some r)"
    using assms(1) by (cases "parse_url_key (case url_key a of None \<Rightarrow> [] | Some k \<Rightarrow> k)")
                       (simp add: entry_res_def)
  let ?d2 = "merged_dims known r m"
  from assms(2) obtain url base am where d: "d = (base ++ am ++ (pm ++ ?d2))(''format_note'' \<mapsto> PStr (format_note_of (dict_get am ''format_note'') url))"
    by (auto simp: extract_addr_def pm Let_def merged_dims_def)
  have w: "''width'' \<in> dom ?d2" and h: "''height'' \<in> dom ?d2"
    by (rule merged_dims_dom)+
  from w obtain x where x: "?d2 ''width'' = Some x" by auto
  from h obtain y where y: "?d2 ''height'' = Some y" by auto
  show ?thesis
    by (simp add: d map_add_def x y)
qed

lemma complete_step: "complete known \<Longrightarrow> complete (snd (extract_addr known a m))"
proof (cases "entry_res (a, m)")
  case None
  assume "complete known"
  with None show ?thesis by (simp add: extract_addr_table_none)
next
  case (Some r)
  assume "complete known"
  with Some show ?thesis
    using merged_dims_dom[of known r m]
    by (auto simp: extract_addr_table_some complete_def)
qed

lemma table_step_known:
  assumes "complete known" and "known r = Some t"
  shows "snd (extract_addr known a m) r = Some t"
proof (cases "entry_res (a, m)")
  case None
  with assms show ?thesis by (simp add: extract_addr_table_none)
next
  case (Some r')
  show ?thesis
  proof (cases "r' = r")
    case True
    from assms have "''height'' \<in> dom t" "''width'' \<in> dom t"
      by (auto simp: complete_def)
    with assms(2) have "merged_dims known r m = t" by (rule merged_dims_known)
    with Some True show ?thesis by (simp add: extract_addr_table_some)
  next
    case False
    with Some assms show ?thesis by (simp add: extract_addr_table_some)
  qed
qed

lemma table_step_unknown:
  assumes "known r = None" and "entry_res (a, m) \<noteq> Some r"
  shows "snd (extract_addr known a m) r = None"
proof (cases "entry_res (a, m)")
  case None
  with assms show ?thesis by (simp add: extract_addr_table_none)
next
  case (Some r')
  with assms show ?thesis by (auto simp: extract_addr_table_some)
qed

lemma later_entry_dims:
  assumes "complete known" and "known r = Some t" and "j < length es"
    and "entry_res (es ! j) = Some r" and "d \<in> set (extract_all known es ! j)"
  shows "d ''width'' = t ''width'' \<and> d ''height'' = t ''height''"
  using assms
proof (induction es arbitrary: known j)
  case Nil
  then show ?case by simp
next
  case (Cons e es)
  show ?case
  proof (cases j)
    case 0
    with Cons.prems have r: "entry_res (fst e, snd e) = Some r"
      and d: "d \<in> set (fst (extract_addr known (fst e) (snd e)))"
      by simp_all
    from Cons.prems(1,2) have "''height'' \<in> dom t" "''width'' \<in> dom t"
      by (auto simp: complete_def)
    with Cons.prems(2) have "merged_dims known r (snd e) = t" by (rule merged_dims_known)
    with extract_addr_dims[OF r d] show ?thesis by simp
  next
    case (Suc j')
    let ?k = "snd (extract_addr known (fst e) (snd e))"
    have "complete ?k" using Cons.prems(1) by (rule complete_step)
    moreover have "?k r = Some t" using Cons.prems(1,2) by (rule table_step_known)
    moreover have "j' < length es" "entry_res (es ! j') = Some r"
      "d \<in> set (extract_all ?k es ! j')"
      using Cons.prems(3,4,5) Suc by simp_all
    ultimately show ?thesis by (rule Cons.IH)
  qed
qed

lemma same_tag_same_dims:
  assumes "complete known" and "i < j" and "j < length es"
    and "entry_res (es ! i) = Some r" and "entry_res (es ! j) = Some r"
    and "d' \<in> set (extract_all known es ! i)" and "d \<in> set (extract_all known es ! j)"
  shows "d ''width'' = d' ''width'' \<and> d ''height'' = d' ''height''"
  using assms
proof (induction es arbitrary: known i j)
  case Nil
  then show ?case by simp
next
  case (Cons e es)
  let ?k = "snd (extract_addr known (fst e) (snd e))"
  have ck: "complete ?k" using Cons.prems(1) by (rule complete_step)
  obtain j' where j: "j = Suc j'" using Cons.prems(2) by (cases j) simp_all
  show ?case
  proof (cases i)
    case 0
    with Cons.prems have r: "entry_res (fst e, snd e) = Some r"
      and d': "d' \<in> set (fst (extract_addr known (fst e) (snd e)))"
      by simp_all
    let ?t = "merged_dims known r (snd e)"
    have kr: "?k r = Some ?t" using r by (simp add: extract_addr_table_some)
    have "j' < length es" "entry_res (es ! j') = Some r" "d \<in> set (extract_all ?k es ! j')"
      using Cons.prems(3,5,7) j by simp_all
    with ck kr have "d ''width'' = ?t ''width'' \<and> d ''height'' = ?t ''height''"
      by (rule later_entry_dims)
    with extract_addr_dims[OF r d'] show ?thesis by simp
  next
    case (Suc i')
    have "i' < j'" "j' < length es" "entry_res (es ! i') = Some r" "entry_res (es ! j') = Some r"
      "d' \<in> set (extract_all ?k es ! i')" "d \<in> set (extract_all ?k es ! j')"
      using Cons.prems Suc j by simp_all
    with ck show ?thesis by (rule Cons.IH)
  qed
qed

lemma first_entry_dims:
  assumes "complete known" and "known r = None" and "i < length es"
    and "\<forall>l<i. entry_res (es ! l) \<noteq> Some r" and "entry_res (es ! i) = Some r"
    and "d' \<in> set (extract_all known es ! i)"
  shows "d' ''width'' = Some (dict_get (snd (es ! i)) ''width'')
       \<and> d' ''height'' = Some (dict_get (snd (es ! i)) ''height'')"
  using assms
proof (induction es arbitrary: known i)
  case Nil
  then show ?case by simp
next
  case (Cons e es)
  show ?case
  proof (cases i)
    case 0
    with Cons.prems have r: "entry_res (fst e, snd e) = Some r"
      and d': "d' \<in> set (fst (extract_addr known (fst e) (snd e)))"
      by simp_all
    from extract_addr_dims[OF r d'] merged_dims_new[of known r "snd e", OF Cons.prems(2)] 0
    show ?thesis by simp
  next
    case (Suc i')
    let ?k = "snd (extract_addr known (fst e) (snd e))"
    have "0 < i" using Suc by simp
    with Cons.prems(4) have "entry_res ((e # es) ! 0) \<noteq> Some r" by blast
    then have ne: "entry_res (fst e, snd e) \<noteq> Some r" by simp
    have "complete ?k" using Cons.prems(1) by (rule complete_step)
    moreover have "?k r = None" using Cons.prems(2) ne by (rule table_step_unknown)
    moreover have "i' < length es" using Cons.prems(3) Suc by simp
    moreover have "\<forall>l<i'. entry_res (es ! l) \<noteq> Some r"
    proof (intro allI impI)
      fix l assume "l < i'"
      then have "Suc l < i" using Suc by simp
      with Cons.prems(4) have "entry_res ((e # es) ! Suc l) \<noteq> Some r" by blast
      then show "entry_res (es ! l) \<noteq> Some r" by simp
    qed
    moreover have "entry_res (es ! i') = Some r" "d' \<in> set (extract_all ?k es ! i')"
      using Cons.prems(5,6) Suc by simp_all
    ultimately have "d' ''width'' = Some (dict_get (snd (es ! i')) ''width'')
       \<and> d' ''height'' = Some (dict_get (snd (es ! i')) ''height'')"
      by (rule Cons.IH)
    then show ?thesis using Suc by simp
  qed
qed

lemma inherited_dims:
  assumes "complete known" and "known r = None" and "i < j" and "j < length es"
    and "\<forall>l<i. entry_res (es ! l) \<noteq> Some r" and "entry_res (es ! i) = Some r"
    and "entry_res (es ! j) = Some r" and "d \<in> set (extract_all known es ! j)"
  shows "d ''width'' = Some (dict_get (snd (es ! i)) ''width'')
       \<and> d ''height'' = Some (dict_get (snd (es ! i)) ''height'')"
  using assms
proof (induction es arbitrary: known i j)
  case Nil
  then show ?case by simp
next
  case (Cons e es)
  let ?k = "snd (extract_addr known (fst e) (snd e))"
  have ck: "complete ?k" using Cons.prems(1) by (rule complete_step)
  obtain j' where j: "j = Suc j'" using Cons.prems(3) by (cases j) simp_all
  show ?case
  proof (cases i)
    case 0
    with Cons.prems have r: "entry_res (fst e, snd e) = Some r" by simp
    let ?t = "merged_dims known r (snd e)"
    have kr: "?k r = Some ?t" using r by (simp add: extract_addr_table_some)
    have "j' < length es" "entry_res (es ! j') = Some r" "d \<in> set (extract_all ?k es ! j')"
      using Cons.prems(4,7,8) j by simp_all
    with ck kr have "d ''width'' = ?t ''width'' \<and> d ''height'' = ?t ''height''"
      by (rule later_entry_dims)
    with merged_dims_new[of known r "snd e", OF Cons.prems(2)] 0 show ?thesis by simp
  next
    case (Suc i')
    have "0 < i" using Suc by simp
    with Cons.prems(5) have "entry_res ((e # es) ! 0) \<noteq> Some r" by blast
    then have ne: "entry_res (fst e, snd e) \<noteq> Some r" by simp
    have "?k r = None" using Cons.prems(2) ne by (rule table_step_unknown)
    moreover have "i' < j'" "j' < length es" using Cons.prems(3,4) Suc j by simp_all
    moreover have "\<forall>l<i'. entry_res (es ! l) \<noteq> Some r"
    proof (intro allI impI)
      fix l assume "l < i'"
      then have "Suc l < i" using Suc by simp
      with Cons.prems(5) have "entry_res ((e # es) ! Suc l) \<noteq> Some r" by blast
      then show "entry_res (es ! l) \<noteq> Some r" by simp
    qed
    moreover have "entry_res (es ! i') = Some r" "entry_res (es ! j') = Some r"
      "d \<in> set (extract_all ?k es ! j')"
      using Cons.prems(6,7,8) Suc j by simp_all
    ultimately have "d ''width'' = Some (dict_get (snd (es ! i')) ''width'')
       \<and> d ''height'' = Some (dict_get (snd (es ! i')) ''height'')"
      using ck by (intro Cons.IH)
    then show ?thesis using Suc by simp
  qed
qed

lemma complete_empty: "complete Map.empty"
  by (simp add: complete_def)

text \<open>
  Claim C4. Take two stream entries of a native item, entry \<open>i\<close> processed before entry
  \<open>j\<close>, whose URL keys parse to the same resolution tag. Every descriptor built from
  entry \<open>j\<close> has the width and height of the descriptors built from entry \<open>i\<close>; and when
  entry \<open>i\<close> is the first entry with that tag, these are the width and height entry \<open>i\<close>
  was given explicitly.
\<close>

theorem resolution_inherited:
  assumes "i < j" and "j < length (stream_entries v)"
    and "entry_res (stream_entries v ! i) = Some r"
    and "entry_res (stream_entries v ! j) = Some r"
    and "d \<in> set (extract_all Map.empty (stream_entries v) ! j)"
  shows "(\<forall>d' \<in> set (extract_all Map.empty (stream_entries v) ! i).
            d ''width'' = d' ''width'' \<and> d ''height'' = d' ''height'')
       \<and> ((\<forall>l<i. entry_res (stream_entries v ! l) \<noteq> Some r) \<longrightarrow>
            d ''width'' = Some (dict_get (snd (stream_entries v ! i)) ''width'')
          \<and> d ''height'' = Some (dict_get (snd (stream_entries v ! i)) ''height''))"
proof (intro conjI ballI impI)
  fix d' assume d': "d' \<in> set (extract_all Map.empty (stream_entries v) ! i)"
  from same_tag_same_dims[OF complete_empty assms(1,2,3,4) d' assms(5)]
  show "d ''width'' = d' ''width''" and "d ''height'' = d' ''height''" by simp_all
next
  assume first: "\<forall>l<i. entry_res (stream_entries v ! l) \<noteq> Some r"
  have e: "(Map.empty :: known_resolutions) r = None" by simp
  from inherited_dims[OF complete_empty e assms(1,2) first assms(3,4,5)]
  show "d ''width'' = Some (dict_get (snd (stream_entries v ! i)) ''width'')"
    and "d ''height'' = Some (dict_get (snd (stream_entries v ! i)) ''height'')"
    by simp_all
qed

lemma entries_video_540:
  "stream_entries video_540
     = [(stream_540 ''https://v16/play.mp4'',
         [''format_id'' \<mapsto> PStr ''play_addr'', ''format_note'' \<mapsto> PStr ''Direct video'',
          ''vcodec'' \<mapsto> PStr ''h264'', ''width'' \<mapsto> PInt 576, ''height'' \<mapsto> PInt 1024]),
        (stream_540 ''https://v16/ladder.mp4'',
         [''format_id'' \<mapsto> PStr ''normal_540_0'', ''format_note'' \<mapsto> PStr ''Playback video'',
          ''tbr'' \<mapsto> PNum (1047055 / 1000), ''vcodec'' \<mapsto> PStr ''h264'', ''fps'' \<mapsto> PNone])]"
  by (simp add: stream_entries_def video_540_def no_streams_def bitrate_entry_def ladder_540_def
        is_h265_flag_def opt_int_def opt_str_def)

lemma res_stream_540: "entry_res (stream_540 u, m) = Some ''540p''"
  by (simp add: entry_res_def stream_540_def parse_url_key_def match_after_v_def is_digit_def Let_def)

text \<open>
  An item whose \<^verbatim>\<open>play_addr\<close> carries 576 by 1024 and whose bitrate ladder has one
  entry with the same tag \<^verbatim>\<open>540p\<close> and no dimensions of its own.
\<close>

theorem resolution_inherited_witness:
  "map (\<lambda>d. (d ''width'', d ''height'')) (extract_all Map.empty (stream_entries video_540) ! 1)
     = [(Some (PInt 576), Some (PInt 1024))]"
proof -
  let ?es = "stream_entries video_540"
  have l: "Suc 0 < length ?es" by (simp add: entries_video_540)
  have r0: "entry_res (?es ! 0) = Some ''540p''"
    by (simp add: entries_video_540 res_stream_540)
  have r1: "entry_res (?es ! Suc 0) = Some ''540p''"
    by (simp add: entries_video_540 res_stream_540)
  have first: "\<forall>l<0. entry_res (?es ! l) \<noteq> Some ''540p''" by simp
  have w: "dict_get (snd (?es ! 0)) ''width'' = PInt 576"
    and h: "dict_get (snd (?es ! 0)) ''height'' = PInt 1024"
    by (simp_all add: entries_video_540 dict_get_def)
  have "length (extract_all Map.empty ?es ! Suc 0) = 1"
    by (simp add: entries_video_540 extract_addr_def stream_540_def split: prod.splits)
  then obtain d where d: "extract_all Map.empty ?es ! Suc 0 = [d]"
    by (cases "extract_all Map.empty ?es ! Suc 0") auto
  then have m: "d \<in> set (extract_all Map.empty ?es ! Suc 0)" by simp
  have z: "(0::nat) < Suc 0" by simp
  note c = resolution_inherited[OF z l r0 r1 m, THEN conjunct2, THEN mp, OF first]
  with w h show ?thesis by (simp add: d)
qed

section \<open>Properties of the pagination driver\<close>

lemma requests_import_args: "requests (import_args c self w) = requests w"
  by (simp add: import_args_def)

lemma call_api_returns:
  assumes "APP_VERSIONS self \<noteq> []"
    and "\<forall>rq. net (length (requests w)) rq = Returned p"
  shows "\<exists>v w1. call_api net c self ep q fatal w = (Returned (Some p), w1)
              \<and> requests w1 = requests w @ [mk_request self ep q v fatal]"
proof (cases "working (import_args c self w) (ie_id self)")
  case (Some v)
  have "\<exists>w1. call_api net c self ep q fatal w = (Returned (Some p), w1)
              \<and> requests w1 = requests w @ [mk_request self ep q v fatal]"
    using assms(2) Some
    by (simp add: call_api_def call_api_impl_def Let_def requests_import_args)
  then show ?thesis by blast
next
  case None
  from assms(1) obtain v rest where vs: "APP_VERSIONS self = v # rest"
    by (cases "APP_VERSIONS self") auto
  have "\<exists>w1. call_api net c self ep q fatal w = (Returned (Some p), w1)
              \<and> requests w1 = requests w @ [mk_request self ep q v fatal]"
    using assms(2) None
    by (simp add: call_api_def call_api_impl_def Let_def requests_import_args vs)
  then show ?thesis by blast
qed

lemma fetch_page_returns:
  assumes "APP_VERSIONS self \<noteq> []"
    and "\<forall>rq. net (length (requests w)) rq = Returned p"
  shows "\<exists>v w1. fetch_page net c self ep q retries left w = (Returned (Some p), w1)
              \<and> requests w1 = requests w @ [mk_request self ep q v True]"
proof -
  from call_api_returns[where self = self and net = net and w = w and p = p and c = c
      and ep = ep and q = q and fatal = True, OF assms]
  obtain v w1 where
    a: "call_api net c self ep q True w = (Returned (Some p), w1)"
    and b: "requests w1 = requests w @ [mk_request self ep q v True]"
    by blast
  have "fetch_page net c self ep q retries left w = (Returned (Some p), w1)"
    using a by (cases left) simp_all
  with b show ?thesis by blast
qed

lemma request_cursor:
  "dict_get (rq_query (mk_request self ep q v fatal)) ''cursor'' = dict_get q ''cursor''"
  by (simp add: mk_request_def build_api_query_def dict_get_def map_add_def)

lemma yield_videos_good:
  "\<forall>x\<in>set xs. parse x = Inr (good x) \<Longrightarrow> yield_videos parse xs = (map good xs, None)"
  by (induction xs) simp_all


lemma entries_loop_pages:
  assumes "ps \<noteq> []"
    and "APP_VERSIONS self \<noteq> []"
    and "\<forall>i<length ps. \<forall>rq. net (length (requests w) + i) rq = Returned (ps ! i)"
    and "\<forall>i. Suc i < length ps \<longrightarrow> has_more (ps ! i) \<and> cursor (ps ! i) \<noteq> None"
    and "\<not> has_more (last ps)"
    and "\<forall>p\<in>set ps. \<forall>x\<in>set (aweme_list p). parse x = Inr (good x)"
    and "length ps \<le> fuel"
  shows "\<exists>rs w'. entries_loop net c self ep retries parse fuel q w
                  = Some (map good (concat (map aweme_list ps)), None, w')
              \<and> requests w' = requests w @ rs \<and> length rs = length ps
              \<and> (\<forall>i<length ps. dict_get (rq_query (rs ! i)) ''cursor''
                    = (case i of 0 \<Rightarrow> dict_get q ''cursor''
                       | Suc i' \<Rightarrow> the (cursor (ps ! i'))))"
  using assms
proof (induction ps arbitrary: fuel q w rule: list_nonempty_induct)
  case (single p)
  from single.prems(6) obtain f where fuel: "fuel = Suc f" by (cases fuel) auto
  from single.prems(2) have n: "\<forall>rq. net (length (requests w)) rq = Returned p" by simp
  from fetch_page_returns[where self = self and net = net and w = w and p = p and c = c
      and ep = ep and q = q and retries = retries and left = retries, OF single.prems(1) n]
  obtain v w1 where f1: "fetch_page net c self ep q retries retries w = (Returned (Some p), w1)"
    and r1: "requests w1 = requests w @ [mk_request self ep q v True]"
    by blast
  have y: "yield_videos parse (aweme_list p) = (map good (aweme_list p), None)"
    using single.prems(5) by (intro yield_videos_good) simp
  have nm: "\<not> has_more p" using single.prems(4) by simp
  have "entries_loop net c self ep retries parse fuel q w
                  = Some (map good (concat (map aweme_list [p])), None, w1)
              \<and> requests w1 = requests w @ [mk_request self ep q v True]
              \<and> length [mk_request self ep q v True] = length [p]
              \<and> (\<forall>i<length [p]. dict_get (rq_query ([mk_request self ep q v True] ! i)) ''cursor''
                    = (case i of 0 \<Rightarrow> dict_get q ''cursor''
                       | Suc i' \<Rightarrow> the (cursor ([p] ! i'))))"
    by (simp add: fuel f1 y nm r1 request_cursor)
  then show ?case by blast
next
  case (cons p ps)
  from cons.prems(6) cons.hyps obtain f where fuel: "fuel = Suc f" and f: "length ps \<le> f"
    by (cases fuel) auto
  have "0 < length (p # ps)" by simp
  from cons.prems(2)[rule_format, OF this]
  have n: "\<forall>rq. net (length (requests w)) rq = Returned p" by simp
  from fetch_page_returns[where self = self and net = net and w = w and p = p and c = c
      and ep = ep and q = q and retries = retries and left = retries, OF cons.prems(1) n]
  obtain v w1 where f1: "fetch_page net c self ep q retries retries w = (Returned (Some p), w1)"
    and r1: "requests w1 = requests w @ [mk_request self ep q v True]"
    by blast
  have y: "yield_videos parse (aweme_list p) = (map good (aweme_list p), None)"
    using cons.prems(5) by (intro yield_videos_good) simp
  have "Suc 0 < length (p # ps)" using cons.hyps by (cases ps) auto
  from cons.prems(3)[rule_format, OF this] obtain cur where
    hm: "has_more p" and cur: "cursor p = Some cur"
    by auto
  let ?q = "q(''cursor'' \<mapsto> cur)"
  have a2: "\<forall>i<length ps. \<forall>rq. net (length (requests w1) + i) rq = Returned (ps ! i)"
  proof (intro allI impI)
    fix i rq assume "i < length ps"
    then have "Suc i < length (p # ps)" by simp
    from cons.prems(2)[rule_format, OF this, of rq]
    show "net (length (requests w1) + i) rq = Returned (ps ! i)"
      by (simp add: r1)
  qed
  have a3: "\<forall>i. Suc i < length ps \<longrightarrow> has_more (ps ! i) \<and> cursor (ps ! i) \<noteq> None"
  proof (intro allI impI)
    fix i assume "Suc i < length ps"
    then have "Suc (Suc i) < length (p # ps)" by simp
    from cons.prems(3)[rule_format, OF this]
    show "has_more (ps ! i) \<and> cursor (ps ! i) \<noteq> None" by simp
  qed
  have a4: "\<not> has_more (last ps)" using cons.prems(4) cons.hyps by simp
  have a5: "\<forall>p\<in>set ps. \<forall>x\<in>set (aweme_list p). parse x = Inr (good x)"
    using cons.prems(5) by simp
  from cons.IH[OF cons.prems(1) a2 a3 a4 a5 f, of ?q]
  obtain rs w' where
    e: "entries_loop net c self ep retries parse f ?q w1
          = Some (map good (concat (map aweme_list ps)), None, w')"
    and rw: "requests w' = requests w1 @ rs" and lr: "length rs = length ps"
    and cr: "\<forall>i<length ps. dict_get (rq_query (rs ! i)) ''cursor''
                    = (case i of 0 \<Rightarrow> dict_get ?q ''cursor''
                       | Suc i' \<Rightarrow> the (cursor (ps ! i')))"
    by blast
  let ?rs = "mk_request self ep q v True # rs"
  have c0: "\<forall>i<length (p # ps). dict_get (rq_query (?rs ! i)) ''cursor''
                    = (case i of 0 \<Rightarrow> dict_get q ''cursor''
                       | Suc i' \<Rightarrow> the (cursor ((p # ps) ! i')))"
  proof (intro allI impI)
    fix i assume i: "i < length (p # ps)"
    show "dict_get (rq_query (?rs ! i)) ''cursor''
                    = (case i of 0 \<Rightarrow> dict_get q ''cursor''
                       | Suc i' \<Rightarrow> the (cursor ((p # ps) ! i')))"
    proof (cases i)
      case 0
      then show ?thesis by (simp add: request_cursor)
    next
      case (Suc i')
      then have "i' < length ps" using i by simp
      from cr[rule_format, OF this] show ?thesis
        using Suc by (cases i') (simp_all add: dict_get_def cur)
    qed
  qed
  have "entries_loop net c self ep retries parse fuel q w
                  = Some (map good (concat (map aweme_list (p # ps))), None, w')
              \<and> requests w' = requests w @ ?rs \<and> length ?rs = length (p # ps)"
    by (simp add: fuel f1 y hm cur e rw r1 lr)
  with c0 show ?case by blast
qed

text \<open>
  Claim C7. Let the calls of the driver be answered by the pages \<open>ps\<close>, one call each,
  where every page but the last reports \<^verbatim>\<open>has_more\<close> and carries a cursor, the last page
  does not report \<^verbatim>\<open>has_more\<close>, and every video of these pages is reconciled without an
  error. Then the generator ends by itself: it has yielded the reconciled videos of all
  pages in order, it has issued as many API requests as there are pages and no more,
  the first with cursor 0 and each later one with the cursor of the page before.
\<close>

theorem entries_stops_after_last_page:
  assumes "ps \<noteq> []"
    and "APP_VERSIONS self \<noteq> []"
    and "\<forall>i<length ps. \<forall>rq. net (length (requests w) + i) rq = Returned (ps ! i)"
    and "\<forall>i. Suc i < length ps \<longrightarrow> has_more (ps ! i) \<and> cursor (ps ! i) \<noteq> None"
    and "\<not> has_more (last ps)"
    and "\<forall>p\<in>set ps. \<forall>x\<in>set (aweme_list p). parse x = Inr (good x)"
    and "length ps \<le> fuel"
  shows "\<exists>rs w'. entries net c self query_name api_endpoint retries parse fuel list_id w
                  = Some (map good (concat (map aweme_list ps)), None, w')
              \<and> requests w' = requests w @ rs \<and> length rs = length ps
              \<and> (\<forall>i<length ps. dict_get (rq_query (rs ! i)) ''cursor''
                    = (case i of 0 \<Rightarrow> PInt 0 | Suc i' \<Rightarrow> the (cursor (ps ! i'))))"
proof -
  let ?q = "[query_name \<mapsto> PStr list_id, ''cursor'' \<mapsto> PInt 0, ''count'' \<mapsto> PInt 20,
        ''type'' \<mapsto> PInt 5, ''device_id'' \<mapsto> PFresh]"
  have q0: "dict_get ?q ''cursor'' = PInt 0" by (simp add: dict_get_def)
  from entries_loop_pages[OF assms, of c api_endpoint retries ?q]
  show ?thesis unfolding entries_def q0 .
qed

lemma two_requests:
  assumes "length rs = 2"
    and "f (rs ! 0) = a" and "f (rs ! Suc 0) = b"
  shows "map f rs = [a, b]"
proof -
  from assms(1) obtain x y where "rs = [x, y]"
    by (cases rs; cases "tl rs") auto
  with assms(2,3) show ?thesis by simp
qed

theorem entries_stops_after_last_page_witness:
  "map_option (\<lambda>(ys, e, w'). (ys, e, map (\<lambda>r. dict_get (rq_query r) ''cursor'') (requests w')))
     (entries net_two_pages no_args (TikTokBaseIE 0) ''music_id'' ''music/aweme'' 3 Inr 5
        ''6956990112127585029'' w_init)
   = Some ([1, 2, 3], None, [PInt 0, PInt 20])"
proof -
  let ?ps = "[page_one, page_two]"
  have h1: "?ps \<noteq> []" by simp
  have h2: "APP_VERSIONS (TikTokBaseIE 0) \<noteq> []" by (simp add: TikTokBaseIE_def)
  have h3: "\<forall>i<length ?ps. \<forall>rq. net_two_pages (length (requests w_init) + i) rq = Returned (?ps ! i)"
    by (simp add: net_two_pages_def w_init_def less_Suc_eq)
  have h4: "\<forall>i. Suc i < length ?ps \<longrightarrow> has_more (?ps ! i) \<and> cursor (?ps ! i) \<noteq> None"
    by (simp add: page_one_def)
  have h5: "\<not> has_more (last ?ps)" by (simp add: page_two_def)
  have h6: "\<forall>p\<in>set ?ps. \<forall>x\<in>set (aweme_list p). Inr x = (Inr ((\<lambda>x. x) x) :: error + nat)"
    by simp
  have h7: "length ?ps \<le> 5" by simp
  from entries_stops_after_last_page[where ps = ?ps and self = "TikTokBaseIE 0"
      and net = net_two_pages and w = w_init and parse = Inr and good = "\<lambda>x. x" and fuel = 5
      and c = no_args and query_name = "''music_id''" and api_endpoint = "''music/aweme''"
      and retries = 3 and list_id = "''6956990112127585029''", OF h1 h2 h3 h4 h5 h6 h7]
  obtain rs w' where
    e: "entries net_two_pages no_args (TikTokBaseIE 0) ''music_id'' ''music/aweme'' 3 Inr 5
          ''6956990112127585029'' w_init
        = Some (map (\<lambda>x. x) (concat (map aweme_list ?ps)), None, w')"
    and r: "requests w' = requests w_init @ rs" and l: "length rs = length ?ps"
    and cs: "\<forall>i<length ?ps. dict_get (rq_query (rs ! i)) ''cursor''
                    = (case i of 0 \<Rightarrow> PInt 0 | Suc i' \<Rightarrow> the (cursor (?ps ! i')))"
    by blast
  have "0 < length ?ps" by simp
  from cs[rule_format, OF this]
  have c0: "dict_get (rq_query (rs ! 0)) ''cursor'' = PInt 0" by simp
  have "Suc 0 < length ?ps" by simp
  from cs[rule_format, OF this]
  have c1: "dict_get (rq_query (rs ! Suc 0)) ''cursor'' = PInt 20" by (simp add: page_one_def)
  from l have l2: "length rs = 2" by simp
  have m: "map (\<lambda>r. dict_get (rq_query r) ''cursor'') rs = [PInt 0, PInt 20]"
    using l2 c0 c1 by (rule two_requests)
  have rw: "requests w' = rs" using r by (simp add: w_init_def)
  show ?thesis by (simp add: e rw m page_one_def page_two_def)
qed

end
